theory Spec2Isabelle
  imports
    Main
    "HOL-Library.Word"
    "HOL-Library.Signed_Division"
    "HOL-Library.Char_ord"
    "HOL-Library.List_Lexorder"
begin

section \<open>Data model of the query-range package\<close>

text \<open>
  A \<^verbatim>\<open>time.Time\<close> is represented by its \<^verbatim>\<open>UnixNano()\<close> value and a
  \<^verbatim>\<open>time.Duration\<close> by its nanosecond count, both as mathematical integers; every
  instant is taken to lie in the range where \<^verbatim>\<open>UnixNano\<close> is defined, so that the
  conversions between the two do not wrap. Go's integer division truncates toward zero:
  it is \<open>sdiv\<close>. A Go panic is the outcome \<open>Panics\<close>; a call that returns is
  \<open>Returns\<close> of its value.
\<close>

datatype 'a outcome = Panics | Returns 'a

datatype direction = FORWARD | BACKWARD

text \<open>
  Errors: \<^verbatim>\<open>httpgrpc.Errorf\<close> with status 400 or 500 and its message, the error of
  \<^verbatim>\<open>validation.ErrQueryTooLong\<close> (status 400) with the two durations it reports, and an
  error made by \<^verbatim>\<open>errors.New\<close> or \<^verbatim>\<open>fmt.Errorf\<close>.
\<close>

datatype error =
    BadRequest string
  | QueryTooLong int int
  | InternalServerError string
  | PlainError string

record LokiRequest =
  Query :: string
  Limit :: "32 word"
  Step :: int
  StartTs :: int
  EndTs :: int
  Direction :: direction
  Path :: string
  Shards :: "string list"

record LokiInstantRequest =
  iQuery :: string
  iLimit :: "32 word"
  TimeTs :: int
  iDirection :: direction
  iPath :: string
  iShards :: "string list"

record LokiSeriesRequest =
  Match :: "string list"
  sStartTs :: int
  sEndTs :: int
  sPath :: string
  sShards :: "string list"

record LokiLabelNamesRequest =
  lStartTs :: int
  lEndTs :: int
  lPath :: string

text \<open>The four implementations of \<^verbatim>\<open>queryrange.Request\<close> in codec.go.\<close>

datatype request =
    RangeQuery LokiRequest
  | InstantQuery LokiInstantRequest
  | SeriesQuery LokiSeriesRequest
  | LabelNamesQuery LokiLabelNamesRequest

text \<open>\<^verbatim>\<open>int64(time.Millisecond) / int64(time.Nanosecond)\<close>\<close>

definition nanosPerMilli :: int where
  "nanosPerMilli = 1000000"

fun GetStart :: "request \<Rightarrow> int" where
  "GetStart (RangeQuery r) = StartTs r sdiv nanosPerMilli"
| "GetStart (InstantQuery r) = TimeTs r sdiv nanosPerMilli"
| "GetStart (SeriesQuery r) = sStartTs r sdiv nanosPerMilli"
| "GetStart (LabelNamesQuery r) = lStartTs r sdiv nanosPerMilli"

fun GetEnd :: "request \<Rightarrow> int" where
  "GetEnd (RangeQuery r) = EndTs r sdiv nanosPerMilli"
| "GetEnd (InstantQuery r) = TimeTs r sdiv nanosPerMilli"
| "GetEnd (SeriesQuery r) = sEndTs r sdiv nanosPerMilli"
| "GetEnd (LabelNamesQuery r) = lEndTs r sdiv nanosPerMilli"

fun GetQuery :: "request \<Rightarrow> string" where
  "GetQuery (RangeQuery r) = Query r"
| "GetQuery (InstantQuery r) = iQuery r"
| "GetQuery (SeriesQuery r) = []"
| "GetQuery (LabelNamesQuery r) = []"

fun GetStep :: "request \<Rightarrow> int" where
  "GetStep (RangeQuery r) = Step r"
| "GetStep (InstantQuery r) = 0"
| "GetStep (SeriesQuery r) = 0"
| "GetStep (LabelNamesQuery r) = 0"

text \<open>
  \<^verbatim>\<open>time.Unix(0, s*int64(time.Millisecond))\<close>: the instant \<open>s\<close> milliseconds after
  the epoch.
\<close>

definition unixMilli :: "int \<Rightarrow> int" where
  "unixMilli s = s * nanosPerMilli"

fun WithStartEnd :: "request \<Rightarrow> int \<Rightarrow> int \<Rightarrow> request" where
  "WithStartEnd (RangeQuery r) s e =
     RangeQuery (r\<lparr>StartTs := unixMilli s, EndTs := unixMilli e\<rparr>)"
| "WithStartEnd (InstantQuery r) s e =
     InstantQuery (r\<lparr>TimeTs := unixMilli s\<rparr>)"
| "WithStartEnd (SeriesQuery r) s e =
     SeriesQuery (r\<lparr>sStartTs := unixMilli s, sEndTs := unixMilli e\<rparr>)"
| "WithStartEnd (LabelNamesQuery r) s e =
     LabelNamesQuery (r\<lparr>lStartTs := unixMilli s, lEndTs := unixMilli e\<rparr>)"

subsection \<open>Formatting\<close>

text \<open>The verb \<^verbatim>\<open>%d\<close> of \<^verbatim>\<open>fmt.Sprintf\<close>: the decimal digits, with a minus sign.\<close>

definition digit :: "nat \<Rightarrow> char" where
  "digit d = ''0123456789'' ! d"

function decimal :: "nat \<Rightarrow> string" where
  "decimal n = (if n < 10 then [digit n] else decimal (n div 10) @ [digit (n mod 10)])"
  by pat_completeness auto
termination
  by (relation "measure id") auto

declare decimal.simps [simp del]

definition fmt_d :: "int \<Rightarrow> string" where
  "fmt_d i = (if i < 0 then CHR ''-'' # decimal (nat (- i)) else decimal (nat i))"

text \<open>
  Reading a decimal number back: the digits of a natural number, with a minus sign in
  front for a negative integer.
\<close>

definition digitVal :: "char \<Rightarrow> nat option" where
  "digitVal c =
     (if c \<in> set ''0123456789'' then Some (of_char c - 48) else None)"

definition addDigit :: "nat option \<Rightarrow> char \<Rightarrow> nat option" where
  "addDigit acc c =
     (case acc of
        None \<Rightarrow> None
      | Some a \<Rightarrow> (case digitVal c of None \<Rightarrow> None | Some v \<Rightarrow> Some (10 * a + v)))"

definition parseNat :: "string \<Rightarrow> nat option" where
  "parseNat s = (if s = [] then None else foldl addDigit (Some 0) s)"

definition parseInt :: "string \<Rightarrow> int option" where
  "parseInt s =
     (case s of
        [] \<Rightarrow> None
      | c # cs \<Rightarrow>
          if c = CHR ''-'' then map_option (\<lambda>n. - int n) (parseNat cs)
          else map_option int (parseNat s))"

section \<open>limits.go\<close>

text \<open>
  The methods of the \<^verbatim>\<open>Limits\<close> interface that the code below calls, each from a tenant
  id to its setting; durations in nanoseconds.
\<close>

record Limits =
  QuerySplitDuration :: "string \<Rightarrow> int"
  MaxQueryLookback :: "string \<Rightarrow> int"
  MaxQueryLength :: "string \<Rightarrow> int"

subsection \<open>Cache keys\<close>

text \<open>
  \<^verbatim>\<open>split/time.Millisecond\<close> is an integer division of durations; dividing the start by
  a zero result panics, as the comment on the function says.
  The last \<^verbatim>\<open>%d\<close> receives the \<^verbatim>\<open>time.Duration\<close> itself, an \<^verbatim>\<open>int64\<close> of nanoseconds.
\<close>

definition GenerateCacheKey :: "Limits \<Rightarrow> string \<Rightarrow> request \<Rightarrow> string outcome" where
  "GenerateCacheKey l userID r =
     (let split = QuerySplitDuration l userID;
          splitMillis = split sdiv nanosPerMilli
      in if splitMillis = 0 then Panics
         else
           let currentInterval = GetStart r sdiv splitMillis
           in Returns (userID @ '':'' @ GetQuery r @ '':'' @ fmt_d (GetStep r) @ '':''
                 @ fmt_d currentInterval @ '':'' @ fmt_d split))"

text \<open>The request and the limits of the spec's cache-key scenario.\<close>

definition scenario_request :: request where
  "scenario_request =
     RangeQuery \<lparr>Query = ''{a=1}'', Limit = 100, Step = 15000,
       StartTs = 60000000000, EndTs = 120000000000, Direction = FORWARD,
       Path = ''/loki/api/v1/query_range'', Shards = []\<rparr>"

definition scenario_limits :: "int \<Rightarrow> Limits" where
  "scenario_limits split =
     \<lparr>QuerySplitDuration = (\<lambda>_. split), MaxQueryLookback = (\<lambda>_. 0),
      MaxQueryLength = (\<lambda>_. 0)\<rparr>"

section \<open>Responses\<close>

record Entry =
  Timestamp :: int
  Line :: string

record Stream =
  Labels :: string
  Entries :: "Entry list"

text \<open>
  Modelled from the spec: \<^verbatim>\<open>stats.Result\<close> and its \<^verbatim>\<open>Merge\<close> are not among the
  sources; the spec says the merger accumulates statistics by field-wise addition. A
  statistics value gives each field's counter, the zero value has every counter at 0.
\<close>

type_synonym stats = "string \<Rightarrow> int"

definition stats_zero :: stats where
  "stats_zero = (\<lambda>_. 0)"

definition stats_Merge :: "stats \<Rightarrow> stats \<Rightarrow> stats" where
  "stats_Merge a b = (\<lambda>field. a field + b field)"

text \<open>A response header: its name and its values.\<close>

type_synonym header = "string \<times> string list"

record LokiResponse =
  Status :: string
  rDirection :: direction
  rLimit :: "32 word"
  Version :: "32 word"
  ErrorType :: string
  Error :: string
  Statistics :: stats
  ResultType :: string
  Result :: "Stream list"
  Headers :: "header list"

text \<open>
  The Prometheus response of the Cortex library; a sample's \<^verbatim>\<open>float64\<close> value is kept
  as its 64 bits, which nothing here computes with.
\<close>

record Sample =
  Value :: "64 word"
  TimestampMs :: int

record SampleStream =
  ssLabels :: "(string \<times> string) list"
  Samples :: "Sample list"

record PrometheusResponse =
  pStatus :: string
  pResultType :: string
  pResult :: "SampleStream list"
  pHeaders :: "header list"

text \<open>\<^verbatim>\<open>Response\<close> is a pointer: \<open>None\<close> is \<^verbatim>\<open>nil\<close>.\<close>

record LokiPromResponse =
  Response :: "PrometheusResponse option"
  mStatistics :: stats

text \<open>
  A series identifier is its label map, kept as the association list of its pairs.
\<close>

record SeriesIdentifier =
  siLabels :: "(string \<times> string) list"

record LokiSeriesResponse =
  sStatus :: string
  sVersion :: "32 word"
  sData :: "SeriesIdentifier list"
  sHeaders :: "header list"

record LokiLabelNamesResponse =
  lStatus :: string
  lVersion :: "32 word"
  lData :: "string list"
  lHeaders :: "header list"

text \<open>
  The implementations of \<^verbatim>\<open>queryrange.Response\<close>: the four of this package, and
  \<open>OtherResponse\<close> for any other implementation of the interface, which the
  \<^verbatim>\<open>default\<close> branches receive.
\<close>

datatype response =
    MetricResponse LokiPromResponse
  | LogStreamResponse LokiResponse
  | SeriesResponse LokiSeriesResponse
  | LabelNamesResponse LokiLabelNamesResponse
  | OtherResponse

text \<open>\<^verbatim>\<open>func (res LokiResponse) Count() int64\<close>\<close>

definition Count :: "LokiResponse \<Rightarrow> nat" where
  "Count res = fold (\<lambda>s result. result + length (Entries s)) (Result res) 0"

section \<open>Merging log streams\<close>

text \<open>
  \<open>before d a b\<close>: entry \<open>a\<close> comes strictly before entry \<open>b\<close> in direction
  \<open>d\<close>: the earlier timestamp first for \<open>FORWARD\<close>, the later one for \<open>BACKWARD\<close>.
\<close>

fun before :: "direction \<Rightarrow> Entry \<Rightarrow> Entry \<Rightarrow> bool" where
  "before FORWARD a b = (Timestamp a < Timestamp b)"
| "before BACKWARD a b = (Timestamp b < Timestamp a)"

record byDir =
  markers :: "Entry list list"
  direction :: direction
  labels :: string

text \<open>
  Modelled from the spec: \<^verbatim>\<open>byDir.merge\<close> is not among the sources. The spec (4.6.1,
  step 3) says a label's merged stream is the k-way merge of its marker runs by timestamp,
  direction-respecting, with a stable tie-break on insertion order. \<open>merge2\<close> merges two
  runs and takes from the earlier-inserted run on a tie; merging the runs pairwise from the
  last one gives the stable k-way merge.
\<close>

fun merge2 :: "direction \<Rightarrow> Entry list \<Rightarrow> Entry list \<Rightarrow> Entry list" where
  "merge2 d [] ys = ys"
| "merge2 d xs [] = xs"
| "merge2 d (x # xs) (y # ys) =
     (if before d y x then y # merge2 d (x # xs) ys else x # merge2 d xs (y # ys))"

definition byDir_merge :: "byDir \<Rightarrow> Entry list" where
  "byDir_merge a = foldr (merge2 (direction a)) (markers a) []"

text \<open>
  \<^verbatim>\<open>groups\<close> is a Go map from labels to \<^verbatim>\<open>*byDir\<close>, here the association list of its
  keys in order of insertion (the order in which Go iterates over the map is unspecified,
  and the keys are sorted before use). \<open>appendMarkers\<close> is the body of the inner loop:
  find or create the group of the stream's labels and append the stream's entries to its
  markers.
\<close>

type_synonym groups = "(string \<times> byDir) list"

fun appendMarkers :: "direction \<Rightarrow> Stream \<Rightarrow> groups \<Rightarrow> groups" where
  "appendMarkers d stream [] =
     [(Labels stream, \<lparr>markers = [Entries stream], direction = d, labels = Labels stream\<rparr>)]"
| "appendMarkers d stream ((k, s) # gs) =
     (if k = Labels stream then (k, s\<lparr>markers := markers s @ [Entries stream]\<rparr>) # gs
      else (k, s) # appendMarkers d stream gs)"

definition ingestResponse :: "direction \<Rightarrow> LokiResponse \<Rightarrow> groups \<times> nat \<Rightarrow> groups \<times> nat" where
  "ingestResponse d resp =
     fold (\<lambda>stream (gs, total). (appendMarkers d stream gs, total + length (Entries stream)))
       (Result resp)"

text \<open>The outer loop, which stops after the response with which the limit is reached.\<close>

fun ingest :: "direction \<Rightarrow> nat \<Rightarrow> LokiResponse list \<Rightarrow> groups \<times> nat \<Rightarrow> groups \<times> nat" where
  "ingest d limit [] st = st"
| "ingest d limit (resp # resps) st =
     (let st' = ingestResponse d resp st
      in if snd st' \<ge> limit then st' else ingest d limit resps st')"

text \<open>
  The keys are distinct, so sorting them with \<^verbatim>\<open>sort.Reverse\<close> gives the ascending
  order reversed. Go compares strings byte by byte, as the lexicographic order on
  character lists does.
\<close>

definition sortKeys :: "direction \<Rightarrow> string list \<Rightarrow> string list" where
  "sortKeys d keys = (if d = BACKWARD then rev (sort keys) else sort keys)"

text \<open>
  \<^verbatim>\<open>groups[key].merge()\<close> for a key of the map; the second case, a key that is not in
  the map, does not arise, since the keys are those of the map.
\<close>

definition mergedEntries :: "groups \<Rightarrow> string \<Rightarrow> Entry list" where
  "mergedEntries gs key = (case map_of gs key of Some s \<Rightarrow> byDir_merge s | None \<Rightarrow> [])"

text \<open>
  Modelled from the spec: the type \<^verbatim>\<open>priorityqueue\<close> and its methods are not among the
  sources. The spec (4.6.1, step 4) says the queue is keyed by the direction-respecting
  comparator over (timestamp, label) and holds one head pointer per non-empty label. The
  queue is the list \<^verbatim>\<open>pq.streams\<close> of non-empty streams; \<open>streamBefore\<close> is the
  comparator on the head entries. As the comment in the source says, a pop gives a stream
  with the labels and the one entry that comes first, and leaves the rest of that stream
  in the queue.
\<close>

fun streamBefore :: "direction \<Rightarrow> string \<times> Entry \<Rightarrow> string \<times> Entry \<Rightarrow> bool" where
  "streamBefore FORWARD (l1, e1) (l2, e2) =
     (Timestamp e1 < Timestamp e2 \<or> (Timestamp e1 = Timestamp e2 \<and> l1 < l2))"
| "streamBefore BACKWARD (l1, e1) (l2, e2) =
     (Timestamp e2 < Timestamp e1 \<or> (Timestamp e1 = Timestamp e2 \<and> l2 < l1))"

fun pqPop :: "direction \<Rightarrow> Stream list \<Rightarrow> (Stream \<times> Stream list) option" where
  "pqPop d [] = None"
| "pqPop d (s # pq) =
     (case Entries s of
        [] \<Rightarrow> map_option (\<lambda>(next, pq'). (next, s # pq')) (pqPop d pq)
      | e # es \<Rightarrow>
          (let here = (s\<lparr>Entries := [e]\<rparr>, if es = [] then pq else s\<lparr>Entries := es\<rparr> # pq)
           in case pqPop d pq of
                None \<Rightarrow> Some here
              | Some (next, pq') \<Rightarrow>
                  if streamBefore d (Labels next, hd (Entries next)) (Labels s, e)
                  then Some (next, s # pq') else Some here))"

text \<open>
  The loop \<^verbatim>\<open>for i := 0; i < int(limit) && pq.Len() > 0; i++\<close>, counting down the
  iterations that are left. The capacity given to \<^verbatim>\<open>make\<close> has no effect on the value
  (and \<^verbatim>\<open>len(keys)\<close> is not 0 when an entry has been popped).
\<close>

fun popLoop :: "direction \<Rightarrow> nat \<Rightarrow> Stream list \<Rightarrow> (string \<rightharpoonup> Entry list)
    \<Rightarrow> (string \<rightharpoonup> Entry list)" where
  "popLoop d 0 pq resultDict = resultDict"
| "popLoop d (Suc n) pq resultDict =
     (case pqPop d pq of
        None \<Rightarrow> resultDict
      | Some (next, pq') \<Rightarrow>
          popLoop d n pq'
            (resultDict(Labels next \<mapsto>
               (case resultDict (Labels next) of None \<Rightarrow> [] | Some es \<Rightarrow> es)
                 @ Entries next)))"

definition mergeOrderedNonOverlappingStreams ::
    "LokiResponse list \<Rightarrow> 32 word \<Rightarrow> direction \<Rightarrow> Stream list" where
  "mergeOrderedNonOverlappingStreams resps limit d =
     (let (gs, total) = ingest d (unat limit) resps ([], 0);
          keys = sortKeys d (map fst gs)
      in if total \<le> unat limit
         then map (\<lambda>key. \<lparr>Labels = key, Entries = mergedEntries gs key\<rparr>) keys
         else
           let pq = filter (\<lambda>stream. length (Entries stream) > 0)
                      (map (\<lambda>key. \<lparr>Labels = key, Entries = mergedEntries gs key\<rparr>) keys);
               resultDict = popLoop d (unat limit) pq Map.empty
           in List.map_filter
                (\<lambda>key. map_option (\<lambda>es. \<lparr>Labels = key, Entries = es\<rparr>) (resultDict key))
                keys)"

section \<open>Merging responses\<close>

text \<open>
  Modelled from the spec: the constants of \<^verbatim>\<open>loghttp\<close> are not among the sources; their
  values are the names the spec gives to the status and to the result types.
\<close>

definition QueryStatusSuccess :: string where
  "QueryStatusSuccess = ''success''"

definition ResultTypeStream :: string where
  "ResultTypeStream = ''stream''"

definition ResultTypeVector :: string where
  "ResultTypeVector = ''vector''"

definition ResultTypeMatrix :: string where
  "ResultTypeMatrix = ''matrix''"

text \<open>
  What the package calls and the sources do not hold: the merge of the Cortex Prometheus
  codec, the generated \<^verbatim>\<open>String\<close> method of a series identifier, the hash of a label
  set (\<^verbatim>\<open>HashWithoutLabels\<close> with no label left out), the LogQL parser, which answers
  with an error message or says whether the expression is a sample expression,
  \<^verbatim>\<open>loghttp.GetVersion\<close>, from a path to the version of the API, and the two
  floating-point conversions of a step: \<open>FormatStep\<close> is
  \<^verbatim>\<open>fmt.Sprintf("%f", float64(step)/float64(1e3))\<close> of a step in milliseconds, and
  \<open>ParseStep\<close> reads the values of the parameter \<^verbatim>\<open>step\<close>, seconds as a float, and
  answers with the step as a duration in nanoseconds or with an error message.
\<close>

record externals =
  PrometheusCodec_MergeResponse ::
    "PrometheusResponse option list \<Rightarrow> (error + PrometheusResponse option) outcome"
  SeriesIdentifier_String :: "SeriesIdentifier \<Rightarrow> string"
  HashWithoutLabels :: "(string \<times> string) list \<Rightarrow> 64 word"
  ParseExpr :: "string \<Rightarrow> string + bool"
  GetVersion :: "string \<Rightarrow> 32 word"
  FormatStep :: "int \<Rightarrow> string"
  ParseStep :: "string list \<Rightarrow> string + int"

text \<open>The type assertions \<^verbatim>\<open>res.(*T)\<close>, which panic on a response of another type.\<close>

fun asLokiPromResponse :: "response \<Rightarrow> LokiPromResponse outcome" where
  "asLokiPromResponse (MetricResponse r) = Returns r"
| "asLokiPromResponse _ = Panics"

fun asLokiResponse :: "response \<Rightarrow> LokiResponse outcome" where
  "asLokiResponse (LogStreamResponse r) = Returns r"
| "asLokiResponse _ = Panics"

fun asLokiSeriesResponse :: "response \<Rightarrow> LokiSeriesResponse outcome" where
  "asLokiSeriesResponse (SeriesResponse r) = Returns r"
| "asLokiSeriesResponse _ = Panics"

fun asLokiLabelNamesResponse :: "response \<Rightarrow> LokiLabelNamesResponse outcome" where
  "asLokiLabelNamesResponse (LabelNamesResponse r) = Returns r"
| "asLokiLabelNamesResponse _ = Panics"

text \<open>
  Each loop of \<^verbatim>\<open>MergeResponse\<close> asserts the type of every response in turn; a panic
  ends the call, whatever the loop has collected.
\<close>

fun assertEach :: "(response \<Rightarrow> 'a outcome) \<Rightarrow> response list \<Rightarrow> 'a list outcome" where
  "assertEach f [] = Returns []"
| "assertEach f (res # rest) =
     (case f res of
        Panics \<Rightarrow> Panics
      | Returns x \<Rightarrow>
          (case assertEach f rest of Panics \<Rightarrow> Panics | Returns xs \<Rightarrow> Returns (x # xs)))"

text \<open>
  The body of the de-duplicating loops: append the element unless its key is in the map
  of the keys seen, a Go \<^verbatim>\<open>map[string]struct{}\<close>.
\<close>

definition appendUnique :: "('a \<Rightarrow> string) \<Rightarrow> 'a \<Rightarrow> 'a list \<times> string set \<Rightarrow> 'a list \<times> string set" where
  "appendUnique key x st =
     (if key x \<in> snd st then st else (fst st @ [x], insert (key x) (snd st)))"

definition mergeUnique :: "('a \<Rightarrow> string) \<Rightarrow> 'a list list \<Rightarrow> 'a list" where
  "mergeUnique key datas = fst (fold (\<lambda>data st. fold (appendUnique key) data st) datas ([], {}))"

definition MergeResponse :: "externals \<Rightarrow> response list \<Rightarrow> (error + response) outcome" where
  "MergeResponse ext responses =
     (case responses of
        [] \<Rightarrow> Returns (Inl (PlainError ''merging responses requires at least one response''))
      | first # _ \<Rightarrow>
          (case first of
             MetricResponse _ \<Rightarrow>
               (case assertEach asLokiPromResponse responses of
                  Panics \<Rightarrow> Panics
                | Returns proms \<Rightarrow>
                    (let mergedStats =
                           fold (\<lambda>res acc. stats_Merge acc (mStatistics res)) proms stats_zero
                     in case PrometheusCodec_MergeResponse ext (map Response proms) of
                          Panics \<Rightarrow> Panics
                        | Returns (Inl err) \<Rightarrow> Returns (Inl err)
                        | Returns (Inr promRes) \<Rightarrow>
                            Returns (Inr (MetricResponse
                              \<lparr>Response = promRes, mStatistics = mergedStats\<rparr>))))
           | LogStreamResponse lokiRes \<Rightarrow>
               (case assertEach asLokiResponse responses of
                  Panics \<Rightarrow> Panics
                | Returns lokiResponses \<Rightarrow>
                    (let mergedStats =
                           fold (\<lambda>res acc. stats_Merge acc (Statistics res)) lokiResponses
                             stats_zero
                     in Returns (Inr (LogStreamResponse
                          \<lparr>Status = QueryStatusSuccess,
                           rDirection = rDirection lokiRes,
                           rLimit = rLimit lokiRes,
                           Version = Version lokiRes,
                           ErrorType = ErrorType lokiRes,
                           Error = Error lokiRes,
                           Statistics = mergedStats,
                           ResultType = ResultTypeStream,
                           Result = mergeOrderedNonOverlappingStreams lokiResponses
                                      (rLimit lokiRes) (rDirection lokiRes),
                           Headers = []\<rparr>))))
           | SeriesResponse lokiSeriesRes \<Rightarrow>
               (case assertEach asLokiSeriesResponse responses of
                  Panics \<Rightarrow> Panics
                | Returns lokiResults \<Rightarrow>
                    Returns (Inr (SeriesResponse
                      \<lparr>sStatus = sStatus lokiSeriesRes,
                       sVersion = sVersion lokiSeriesRes,
                       sData = mergeUnique (SeriesIdentifier_String ext) (map sData lokiResults),
                       sHeaders = []\<rparr>)))
           | LabelNamesResponse labelNameRes \<Rightarrow>
               (case assertEach asLokiLabelNamesResponse responses of
                  Panics \<Rightarrow> Panics
                | Returns lokiResults \<Rightarrow>
                    Returns (Inr (LabelNamesResponse
                      \<lparr>lStatus = lStatus labelNameRes,
                       lVersion = lVersion labelNameRes,
                       lData = mergeUnique (\<lambda>labelName. labelName) (map lData lokiResults),
                       lHeaders = []\<rparr>)))
           | OtherResponse \<Rightarrow>
               Returns (Inl (PlainError ''unknown response in merging responses''))))"

section \<open>Notions used by the properties of the merger\<close>

text \<open>Two responses are of the same one of the package's four types.\<close>

fun sameVariant :: "response \<Rightarrow> response \<Rightarrow> bool" where
  "sameVariant (MetricResponse _) (MetricResponse _) = True"
| "sameVariant (LogStreamResponse _) (LogStreamResponse _) = True"
| "sameVariant (SeriesResponse _) (SeriesResponse _) = True"
| "sameVariant (LabelNamesResponse _) (LabelNamesResponse _) = True"
| "sameVariant _ _ = False"

text \<open>
  The elements of a list at the positions where their key appears for the first time, in
  the order of the list.
\<close>

definition firstAppearances :: "('a \<Rightarrow> string) \<Rightarrow> 'a list \<Rightarrow> 'a list" where
  "firstAppearances key xs =
     map (\<lambda>i. xs ! i) (filter (\<lambda>i. \<forall>j<i. key (xs ! j) \<noteq> key (xs ! i)) [0..<length xs])"

text \<open>
  For the examples: a Prometheus merge that answers with the first response, a
  \<^verbatim>\<open>String\<close> method that writes the pairs of a series in their order, a hash that is
  the total length of the label values, a parser that refuses the empty query and takes a
  query that starts with a brace for a log selector and any other for a sample expression,
  two API versions told apart by the path's prefix, and a step written as its
  milliseconds with the exponent \<^verbatim>\<open>e-3\<close> and read back from that form.
\<close>

definition example_externals :: externals where
  "example_externals =
     \<lparr>PrometheusCodec_MergeResponse =
        (\<lambda>responses. case responses of
           [] \<Rightarrow> Returns (Inl (PlainError ''no responses''))
         | res # _ \<Rightarrow> Returns (Inr res)),
      SeriesIdentifier_String =
        (\<lambda>series. concat (map (\<lambda>(k, v). k @ ''='' @ v @ '','') (siLabels series))),
      HashWithoutLabels = (\<lambda>lbs. word_of_nat (length (concat (map snd lbs)))),
      ParseExpr =
        (\<lambda>query. if query = [] then Inl ''syntax error: unexpected $end''
                 else Inr (hd query \<noteq> CHR ''{'')),
      GetVersion = (\<lambda>path. if take 10 path = ''/api/prom/'' then 0 else 1),
      FormatStep = (\<lambda>step. fmt_d step @ ''e-3''),
      ParseStep =
        (\<lambda>values. case values of
           [] \<Rightarrow> Inr 0
         | v # _ \<Rightarrow>
             (case parseInt (take (length v - 3) v) of
                None \<Rightarrow> Inl ''cannot parse step''
              | Some step \<Rightarrow> Inr (step * 1000000)))\<rparr>"

definition example_series :: "string \<Rightarrow> string \<Rightarrow> SeriesIdentifier" where
  "example_series a b = \<lparr>siLabels = [(''a'', a), (''b'', b)]\<rparr>"

definition example_SeriesResponse :: "SeriesIdentifier list \<Rightarrow> LokiSeriesResponse" where
  "example_SeriesResponse series =
     \<lparr>sStatus = QueryStatusSuccess, sVersion = 1, sData = series, sHeaders = []\<rparr>"

definition example_LabelNamesResponse :: "string list \<Rightarrow> LokiLabelNamesResponse" where
  "example_LabelNamesResponse names =
     \<lparr>lStatus = QueryStatusSuccess, lVersion = 1, lData = names, lHeaders = []\<rparr>"

section \<open>Empty responses\<close>

text \<open>\<^verbatim>\<open>queryrange.NewEmptyPrometheusResponse()\<close> of the Cortex library.\<close>

definition NewEmptyPrometheusResponse :: PrometheusResponse where
  "NewEmptyPrometheusResponse =
     \<lparr>pStatus = QueryStatusSuccess, pResultType = ResultTypeMatrix, pResult = [], pHeaders = []\<rparr>"

fun NewEmptyResponse :: "externals \<Rightarrow> request \<Rightarrow> error + response" where
  "NewEmptyResponse ext (SeriesQuery req) =
     Inr (SeriesResponse
       \<lparr>sStatus = QueryStatusSuccess, sVersion = GetVersion ext (sPath req),
        sData = [], sHeaders = []\<rparr>)"
| "NewEmptyResponse ext (LabelNamesQuery req) =
     Inr (LabelNamesResponse
       \<lparr>lStatus = QueryStatusSuccess, lVersion = GetVersion ext (lPath req),
        lData = [], lHeaders = []\<rparr>)"
| "NewEmptyResponse ext (InstantQuery req) =
     Inr (MetricResponse
       \<lparr>Response = Some \<lparr>pStatus = QueryStatusSuccess, pResultType = ResultTypeVector,
                          pResult = [], pHeaders = []\<rparr>,
        mStatistics = stats_zero\<rparr>)"
| "NewEmptyResponse ext (RangeQuery req) =
     (case ParseExpr ext (Query req) of
        Inl err \<Rightarrow> Inl (BadRequest err)
      | Inr isSampleExpr \<Rightarrow>
          if isSampleExpr
          then Inr (MetricResponse
                 \<lparr>Response = Some NewEmptyPrometheusResponse, mStatistics = stats_zero\<rparr>)
          else Inr (LogStreamResponse
                 \<lparr>Status = QueryStatusSuccess, rDirection = Direction req, rLimit = Limit req,
                  Version = GetVersion ext (Path req), ErrorType = [], Error = [],
                  Statistics = stats_zero, ResultType = ResultTypeStream, Result = [],
                  Headers = []\<rparr>))"

section \<open>The limits middleware\<close>

text \<open>
  \<^verbatim>\<open>validation.SmallestPositiveNonZeroDurationPerTenant\<close> of the Cortex library: the
  smallest of the tenants' positive settings, 0 when none is positive.
\<close>

definition SmallestPositiveNonZeroDurationPerTenant :: "string list \<Rightarrow> (string \<Rightarrow> int) \<Rightarrow> int" where
  "SmallestPositiveNonZeroDurationPerTenant tenantIDs f =
     (case filter (\<lambda>v. v > 0) (map f tenantIDs) of [] \<Rightarrow> 0 | v # vs \<Rightarrow> fold min vs v)"

text \<open>\<^verbatim>\<open>util.TimeToMillis\<close>: the milliseconds of an instant, truncated.\<close>

definition TimeToMillis :: "int \<Rightarrow> int" where
  "TimeToMillis t = t sdiv nanosPerMilli"

text \<open>
  \<^verbatim>\<open>timestamp.Time(a).Sub(timestamp.Time(b))\<close> for two times in milliseconds:
  \<^verbatim>\<open>Time.Sub\<close> answers with the largest or the smallest duration when the difference does
  not fit an \<^verbatim>\<open>int64\<close> of nanoseconds.
\<close>

definition maxDuration :: int where
  "maxDuration = 2 ^ 63 - 1"

definition minDuration :: int where
  "minDuration = - (2 ^ 63)"

definition Sub :: "int \<Rightarrow> int \<Rightarrow> int" where
  "Sub t u = max minDuration (min maxDuration (t - u))"

definition queryLength :: "request \<Rightarrow> int" where
  "queryLength r = Sub (unixMilli (GetEnd r)) (unixMilli (GetStart r))"

text \<open>
  \<^verbatim>\<open>limitsMiddleware.Do\<close>. The context gives the tenant ids or the message of the error
  of \<^verbatim>\<open>tenant.TenantIDs\<close>, and \<open>now\<close> is what \<^verbatim>\<open>time.Now()\<close> answers. The next
  handler is a function of the request; beside its result, \<open>Do\<close> gives the list of the
  requests it has passed to the next handler.
\<close>

definition limitsMiddleware_Do ::
    "externals \<Rightarrow> Limits \<Rightarrow> (request \<Rightarrow> error + response) \<Rightarrow> int \<Rightarrow> string + string list
      \<Rightarrow> request \<Rightarrow> (error + response) \<times> request list" where
  "limitsMiddleware_Do ext l next now ctxTenants r =
     (case ctxTenants of
        Inl err \<Rightarrow> (Inl (BadRequest err), [])
      | Inr tenantIDs \<Rightarrow>
          (let maxQueryLookback =
                 SmallestPositiveNonZeroDurationPerTenant tenantIDs (MaxQueryLookback l);
               minStartTime = TimeToMillis (now - maxQueryLookback)
           in if maxQueryLookback > 0 \<and> GetEnd r < minStartTime
              then (NewEmptyResponse ext r, [])
              else
                (let r' = (if maxQueryLookback > 0 \<and> GetStart r < minStartTime
                           then WithStartEnd r minStartTime (GetEnd r) else r);
                     maxQueryLength =
                       SmallestPositiveNonZeroDurationPerTenant tenantIDs (MaxQueryLength l);
                     queryLen = queryLength r'
                 in if maxQueryLength > 0 \<and> queryLen > maxQueryLength
                    then (Inl (QueryTooLong queryLen maxQueryLength), [])
                    else (next r', [r']))))"

section \<open>The series limiter\<close>

text \<open>
  The limiter's state: the set of the hashes seen, a Go \<^verbatim>\<open>map[uint64]struct{}\<close>, and the
  limit. The mutex and the hashing buffer hold no information. The sub-requests of one
  limiter are taken one after the other, each \<open>Do\<close> running to its end before the next
  one starts; the state carries the list of the requests passed to the next handler.
\<close>

record seriesLimiter =
  hashes :: "64 word set"
  maxSeries :: int

definition Wrap :: "int \<Rightarrow> seriesLimiter" where
  "Wrap slm = \<lparr>hashes = {}, maxSeries = slm\<rparr>"

definition isLimitReached :: "seriesLimiter \<Rightarrow> bool" where
  "isLimitReached sl = (int (card (hashes sl)) > maxSeries sl)"

text \<open>\<^verbatim>\<open>httpgrpc.Errorf(http.StatusBadRequest, limitErrTmpl, sl.maxSeries)\<close>\<close>

definition limitErr :: "seriesLimiter \<Rightarrow> error" where
  "limitErr sl =
     BadRequest (''maximum of series ('' @ fmt_d (maxSeries sl) @ '') reached for a single query'')"

definition seriesLimiter_Do ::
    "externals \<Rightarrow> (request \<Rightarrow> error + response) \<Rightarrow> request
      \<Rightarrow> seriesLimiter \<times> request list \<Rightarrow> (error + response) \<times> (seriesLimiter \<times> request list)" where
  "seriesLimiter_Do ext next req st =
     (let sl = fst st; calls = snd st
      in if isLimitReached sl then (Inl (limitErr sl), (sl, calls))
         else
           (let res = next req; calls' = calls @ [req]
            in case res of
                 Inl err \<Rightarrow> (Inl err, (sl, calls'))
               | Inr (MetricResponse promResponse) \<Rightarrow>
                   (case Response promResponse of
                      None \<Rightarrow> (res, (sl, calls'))
                    | Some prom \<Rightarrow>
                        (let sl' = sl\<lparr>hashes :=
                                      fold (\<lambda>s hs. insert (HashWithoutLabels ext (ssLabels s)) hs)
                                        (pResult prom) (hashes sl)\<rparr>
                         in if isLimitReached sl' then (Inl (limitErr sl'), (sl', calls'))
                            else (res, (sl', calls'))))
               | Inr _ \<Rightarrow> (res, (sl, calls'))))"

text \<open>
  A sequence of sub-requests: for each one, the result of \<open>Do\<close> and the state it leaves.
\<close>

fun seriesLimiter_trace ::
    "externals \<Rightarrow> (request \<Rightarrow> error + response) \<Rightarrow> request list
      \<Rightarrow> seriesLimiter \<times> request list
      \<Rightarrow> ((error + response) \<times> (seriesLimiter \<times> request list)) list" where
  "seriesLimiter_trace ext next [] st = []"
| "seriesLimiter_trace ext next (req # reqs) st =
     (let step = seriesLimiter_Do ext next req st
      in step # seriesLimiter_trace ext next reqs (snd step))"

section \<open>Notions used by the properties of the middleware\<close>

text \<open>
  A response without data of the type that answers a request: a series or label-names
  response for the request of that name, a metric response for an instant query, a metric
  or a log-stream response for a range query.
\<close>

fun emptyFor :: "request \<Rightarrow> response \<Rightarrow> bool" where
  "emptyFor (SeriesQuery _) (SeriesResponse s) = (sData s = [])"
| "emptyFor (LabelNamesQuery _) (LabelNamesResponse n) = (lData n = [])"
| "emptyFor (InstantQuery _) (MetricResponse m) =
     (case Response m of None \<Rightarrow> False | Some p \<Rightarrow> pResult p = [])"
| "emptyFor (RangeQuery _) (MetricResponse m) =
     (case Response m of None \<Rightarrow> False | Some p \<Rightarrow> pResult p = [])"
| "emptyFor (RangeQuery _) (LogStreamResponse g) = (Result g = [])"
| "emptyFor _ _ = False"

text \<open>For the examples: limits, a range query between two times in seconds, a handler.\<close>

definition example_limits :: "int \<Rightarrow> int \<Rightarrow> Limits" where
  "example_limits lookback maxLength =
     \<lparr>QuerySplitDuration = (\<lambda>_. 0), MaxQueryLookback = (\<lambda>_. lookback),
      MaxQueryLength = (\<lambda>_. maxLength)\<rparr>"

definition seconds :: "int \<Rightarrow> int" where
  "seconds s = s * 1000000000"

definition example_range :: "string \<Rightarrow> int \<Rightarrow> int \<Rightarrow> request" where
  "example_range query start end =
     RangeQuery \<lparr>Query = query, Limit = 100, Step = 0,
       StartTs = seconds start, EndTs = seconds end, Direction = BACKWARD,
       Path = ''/loki/api/v1/query_range'', Shards = []\<rparr>"

definition example_next :: "request \<Rightarrow> error + response" where
  "example_next r = Inr OtherResponse"

text \<open>
  For the examples: a handler that answers every request with a metric response of one
  series, labelled with the request's query.
\<close>

definition example_metric_next :: "request \<Rightarrow> error + response" where
  "example_metric_next r =
     Inr (MetricResponse
       \<lparr>Response = Some
          \<lparr>pStatus = QueryStatusSuccess, pResultType = ResultTypeMatrix,
           pResult = [\<lparr>ssLabels = [(''name'', GetQuery r)], Samples = []\<rparr>],
           pHeaders = []\<rparr>,
        mStatistics = stats_zero\<rparr>)"

section \<open>Notions used by the properties of the stream merge\<close>

text \<open>
  A list of entries is sorted in direction \<open>d\<close>: no entry comes strictly before an
  earlier one of the list.
\<close>

definition sortedDir :: "direction \<Rightarrow> Entry list \<Rightarrow> bool" where
  "sortedDir d es = sorted_wrt (\<lambda>a b. \<not> before d b a) es"

text \<open>
  Two streams do not overlap in time: all the entries of one are at or before all the
  entries of the other. The streams of a list of responses are pairwise non-overlapping per
  label when this holds for any two of them, taken at different places, with the same
  labels.
\<close>

definition apart :: "direction \<Rightarrow> Stream \<Rightarrow> Stream \<Rightarrow> bool" where
  "apart d s t =
     ((\<forall>a\<in>set (Entries s). \<forall>b\<in>set (Entries t). \<not> before d b a)
      \<or> (\<forall>a\<in>set (Entries s). \<forall>b\<in>set (Entries t). \<not> before d a b))"

fun nonOverlapping :: "direction \<Rightarrow> Stream list \<Rightarrow> bool" where
  "nonOverlapping d [] = True"
| "nonOverlapping d (s # ss) =
     ((\<forall>t\<in>set ss. Labels t = Labels s \<longrightarrow> apart d s t) \<and> nonOverlapping d ss)"

definition entryCount :: "Stream list \<Rightarrow> nat" where
  "entryCount ss = sum_list (map (\<lambda>s. length (Entries s)) ss)"

text \<open>For the examples: an entry, and a log-stream response of given streams.\<close>

definition example_entry :: "int \<Rightarrow> string \<Rightarrow> Entry" where
  "example_entry t line = \<lparr>Timestamp = t, Line = line\<rparr>"

definition example_LokiResponse :: "direction \<Rightarrow> 32 word \<Rightarrow> Stream list \<Rightarrow> LokiResponse" where
  "example_LokiResponse d limit ss =
     \<lparr>Status = QueryStatusSuccess, rDirection = d, rLimit = limit, Version = 1,
      ErrorType = [], Error = [], Statistics = stats_zero, ResultType = ResultTypeStream,
      Result = ss, Headers = []\<rparr>"

text \<open>The number of entries in the markers of a group.\<close>

definition runsLength :: "byDir \<Rightarrow> nat" where
  "runsLength s = sum_list (map length (markers s))"

text \<open>What the loops keep true of the groups.\<close>

definition groupsOk :: "direction \<Rightarrow> groups \<Rightarrow> bool" where
  "groupsOk d gs \<longleftrightarrow>
     distinct (map fst gs)
     \<and> (\<forall>(k, s)\<in>set gs. direction s = d \<and> (\<forall>m\<in>set (markers s). sortedDir d m))"

definition groupsTotal :: "groups \<Rightarrow> nat" where
  "groupsTotal gs = sum_list (map (\<lambda>(k, s). runsLength s) gs)"

text \<open>The entries that a queue holds for a label, and those a result map holds.\<close>

definition remaining :: "Stream list \<Rightarrow> string \<Rightarrow> Entry list" where
  "remaining pq l = concat (map Entries (filter (\<lambda>s. Labels s = l) pq))"

definition entriesOf :: "(string \<rightharpoonup> Entry list) \<Rightarrow> string \<Rightarrow> Entry list" where
  "entriesOf resultDict l = (case resultDict l of None \<Rightarrow> [] | Some es \<Rightarrow> es)"

text \<open>
  For the examples: the two responses of the spec's range-split scenario, in direction
  \<open>BACKWARD\<close>.
\<close>

definition scenario_A :: LokiResponse where
  "scenario_A = example_LokiResponse BACKWARD 3
     [\<lparr>Labels = ''{foo=1}'', Entries = [example_entry 10 ''a'', example_entry 9 ''b'']\<rparr>]"

definition scenario_B :: LokiResponse where
  "scenario_B = example_LokiResponse BACKWARD 3
     [\<lparr>Labels = ''{foo=1}'', Entries = [example_entry 8 ''c'', example_entry 7 ''d'']\<rparr>]"

section \<open>The request codec\<close>

text \<open>
  An HTTP request: the method, the path of the URL, the form (the query parameters, each
  name with its list of values, no value for a name that is absent), and the header.
  \<^verbatim>\<open>url.Values.Encode\<close> writes the parameters into the query string and
  \<^verbatim>\<open>ParseForm\<close> reads them back, so that the form of a request made by
  \<open>EncodeRequest\<close> is the parameters it was given; a name with an empty list of values
  is not written at all.
\<close>

record http_Request =
  Method :: string
  URL_Path :: string
  Form :: "string \<Rightarrow> string list"
  Header :: "header list"

text \<open>\<^verbatim>\<open>Direction.String()\<close>, the name of the enum value.\<close>

fun Direction_String :: "direction \<Rightarrow> string" where
  "Direction_String FORWARD = ''FORWARD''"
| "Direction_String BACKWARD = ''BACKWARD''"

text \<open>
  \<^verbatim>\<open>url.Values{...}\<close>: the parameters given, each with one value, and no other.
\<close>

definition Values :: "(string \<times> string list) list \<Rightarrow> string \<Rightarrow> string list" where
  "Values kvs = (\<lambda>name. case map_of kvs name of None \<Rightarrow> [] | Some vs \<Rightarrow> vs)"

text \<open>
  \<open>EncodeRequest\<close>; \<open>queryTags\<close> is what the context holds under the key of the
  query-tags header. The \<^verbatim>\<open>default\<close> branch is for a request of another type than the
  four of this package.
\<close>

definition header_of :: "string \<Rightarrow> header list" where
  "header_of queryTags = (if queryTags \<noteq> [] then [(''X-Query-Tags'', [queryTags])] else [])"

fun EncodeRequest :: "externals \<Rightarrow> string \<Rightarrow> request \<Rightarrow> error + http_Request" where
  "EncodeRequest ext queryTags (RangeQuery request) =
     (let params = Values
            [(''start'', [fmt_d (StartTs request)]),
             (''end'', [fmt_d (EndTs request)]),
             (''query'', [Query request]),
             (''direction'', [Direction_String (Direction request)]),
             (''limit'', [fmt_d (uint (Limit request))])];
          params = (if length (Shards request) > 0
                    then params(''shards'' := Shards request) else params);
          params = (if Step request \<noteq> 0
                    then params(''step'' := [FormatStep ext (Step request)]) else params)
      in Inr \<lparr>Method = ''GET'', URL_Path = ''/loki/api/v1/query_range'', Form = params,
              Header = header_of queryTags\<rparr>)"
| "EncodeRequest ext queryTags (SeriesQuery request) =
     (let params = Values
            [(''start'', [fmt_d (sStartTs request)]),
             (''end'', [fmt_d (sEndTs request)]),
             (''match[]'', Match request)];
          params = (if length (sShards request) > 0
                    then params(''shards'' := sShards request) else params)
      in Inr \<lparr>Method = ''GET'', URL_Path = ''/loki/api/v1/series'', Form = params,
              Header = header_of queryTags\<rparr>)"
| "EncodeRequest ext queryTags (LabelNamesQuery request) =
     (let params = Values
            [(''start'', [fmt_d (lStartTs request)]),
             (''end'', [fmt_d (lEndTs request)])]
      in Inr \<lparr>Method = ''GET'', URL_Path = ''/loki/api/v1/labels'', Form = params,
              Header = header_of queryTags\<rparr>)"
| "EncodeRequest ext queryTags (InstantQuery request) =
     (let params = Values
            [(''query'', [iQuery request]),
             (''direction'', [Direction_String (iDirection request)]),
             (''limit'', [fmt_d (uint (iLimit request))]),
             (''time'', [fmt_d (TimeTs request)])];
          params = (if length (iShards request) > 0
                    then params(''shards'' := iShards request) else params)
      in Inr \<lparr>Method = ''GET'', URL_Path = ''/loki/api/v1/query'', Form = params,
              Header = header_of queryTags\<rparr>)"

text \<open>
  Modelled from the spec: \<^verbatim>\<open>getOperation\<close> is not among the sources. The spec (4.1) says
  the decoder dispatches on the suffix of the path: \<^verbatim>\<open>/query_range\<close>, \<^verbatim>\<open>/query\<close>,
  \<^verbatim>\<open>/series\<close>, \<^verbatim>\<open>/labels\<close>.
\<close>

datatype operation = QueryRangeOp | InstantQueryOp | SeriesOp | LabelNamesOp | UnknownOp

definition hasSuffix :: "string \<Rightarrow> string \<Rightarrow> bool" where
  "hasSuffix s suffix =
     (length suffix \<le> length s \<and> drop (length s - length suffix) s = suffix)"

definition getOperation :: "string \<Rightarrow> operation" where
  "getOperation path =
     (if hasSuffix path ''/query_range'' then QueryRangeOp
      else if hasSuffix path ''/query'' then InstantQueryOp
      else if hasSuffix path ''/series'' then SeriesOp
      else if hasSuffix path ''/labels'' then LabelNamesOp
      else UnknownOp)"

text \<open>
  Modelled from the spec: the parsers \<^verbatim>\<open>loghttp.ParseRangeQuery\<close>,
  \<^verbatim>\<open>loghttp.ParseInstantQuery\<close>, \<^verbatim>\<open>logql.ParseAndValidateSeriesQuery\<close> and
  \<^verbatim>\<open>loghttp.ParseLabelQuery\<close> are not among the sources. The spec (4.1) says that
  \<^verbatim>\<open>start\<close>, \<^verbatim>\<open>end\<close> and \<^verbatim>\<open>time\<close> are read as nanoseconds, \<^verbatim>\<open>step\<close> as seconds,
  \<^verbatim>\<open>limit\<close> as an integer, \<^verbatim>\<open>direction\<close> as one of the two directions, with
  \<^verbatim>\<open>shards\<close> and \<^verbatim>\<open>match[]\<close> repeated, and that an invalid time or limit fails. A
  parameter is read from the first of its values, the empty string when it has none.
\<close>

definition Form_Get :: "http_Request \<Rightarrow> string \<Rightarrow> string" where
  "Form_Get r name = (case Form r name of [] \<Rightarrow> [] | v # _ \<Rightarrow> v)"

definition parseTimestamp :: "string \<Rightarrow> string + int" where
  "parseTimestamp value =
     (case parseInt value of None \<Rightarrow> Inl (''could not parse ts: '' @ value) | Some t \<Rightarrow> Inr t)"

definition parseLimit :: "string \<Rightarrow> string + 32 word" where
  "parseLimit value =
     (case parseNat value of
        None \<Rightarrow> Inl (''could not parse limit: '' @ value)
      | Some n \<Rightarrow> if n < 2 ^ 32 then Inr (word_of_nat n)
                  else Inl (''could not parse limit: '' @ value))"

definition parseDirection :: "string \<Rightarrow> string + direction" where
  "parseDirection value =
     (if value = ''FORWARD'' \<or> value = ''forward'' then Inr FORWARD
      else if value = ''BACKWARD'' \<or> value = ''backward'' then Inr BACKWARD
      else Inl (''invalid direction: '' @ value))"

text \<open>The next parser runs on the value of the one before, and an error ends the parse.\<close>

definition andThen :: "string + 'a \<Rightarrow> ('a \<Rightarrow> string + 'b) \<Rightarrow> string + 'b" where
  "andThen r f = (case r of Inl err \<Rightarrow> Inl err | Inr x \<Rightarrow> f x)"

record loghttp_RangeQuery =
  rq_Start :: int
  rq_End :: int
  rq_Step :: int
  rq_Query :: string
  rq_Direction :: direction
  rq_Limit :: "32 word"
  rq_Shards :: "string list"

record loghttp_InstantQuery =
  iq_Ts :: int
  iq_Query :: string
  iq_Direction :: direction
  iq_Limit :: "32 word"
  iq_Shards :: "string list"

record loghttp_SeriesQuery =
  sq_Start :: int
  sq_End :: int
  sq_Groups :: "string list"
  sq_Shards :: "string list"

record loghttp_LabelQuery =
  lq_Start :: int
  lq_End :: int

definition ParseRangeQuery :: "externals \<Rightarrow> http_Request \<Rightarrow> string + loghttp_RangeQuery" where
  "ParseRangeQuery ext r =
     andThen (parseTimestamp (Form_Get r ''start'')) (\<lambda>start.
     andThen (parseTimestamp (Form_Get r ''end'')) (\<lambda>end.
     andThen (parseLimit (Form_Get r ''limit'')) (\<lambda>limit.
     andThen (parseDirection (Form_Get r ''direction'')) (\<lambda>direction.
     andThen (ParseStep ext (Form r ''step'')) (\<lambda>step.
       Inr \<lparr>rq_Start = start, rq_End = end, rq_Step = step, rq_Query = Form_Get r ''query'',
            rq_Direction = direction, rq_Limit = limit, rq_Shards = Form r ''shards''\<rparr>)))))"

definition ParseInstantQuery :: "http_Request \<Rightarrow> string + loghttp_InstantQuery" where
  "ParseInstantQuery r =
     andThen (parseTimestamp (Form_Get r ''time'')) (\<lambda>ts.
     andThen (parseLimit (Form_Get r ''limit'')) (\<lambda>limit.
     andThen (parseDirection (Form_Get r ''direction'')) (\<lambda>direction.
       Inr \<lparr>iq_Ts = ts, iq_Query = Form_Get r ''query'', iq_Direction = direction,
            iq_Limit = limit, iq_Shards = Form r ''shards''\<rparr>)))"

definition ParseAndValidateSeriesQuery :: "http_Request \<Rightarrow> string + loghttp_SeriesQuery" where
  "ParseAndValidateSeriesQuery r =
     andThen (parseTimestamp (Form_Get r ''start'')) (\<lambda>start.
     andThen (parseTimestamp (Form_Get r ''end'')) (\<lambda>end.
       Inr \<lparr>sq_Start = start, sq_End = end, sq_Groups = Form r ''match[]'',
            sq_Shards = Form r ''shards''\<rparr>))"

definition ParseLabelQuery :: "http_Request \<Rightarrow> string + loghttp_LabelQuery" where
  "ParseLabelQuery r =
     andThen (parseTimestamp (Form_Get r ''start'')) (\<lambda>start.
     andThen (parseTimestamp (Form_Get r ''end'')) (\<lambda>end.
       Inr \<lparr>lq_Start = start, lq_End = end\<rparr>))"

text \<open>
  \<open>DecodeRequest\<close>. The form of the request is at hand, so \<^verbatim>\<open>ParseForm\<close> does not
  fail; \<^verbatim>\<open>UTC()\<close> does not change the instant.
\<close>

definition DecodeRequest :: "externals \<Rightarrow> http_Request \<Rightarrow> error + request" where
  "DecodeRequest ext r =
     (case getOperation (URL_Path r) of
        QueryRangeOp \<Rightarrow>
          (case ParseRangeQuery ext r of
             Inl err \<Rightarrow> Inl (BadRequest err)
           | Inr req \<Rightarrow>
               Inr (RangeQuery
                 \<lparr>Query = rq_Query req, Limit = rq_Limit req,
                  Step = rq_Step req sdiv 1000000,
                  StartTs = rq_Start req, EndTs = rq_End req,
                  Direction = rq_Direction req, Path = URL_Path r,
                  Shards = rq_Shards req\<rparr>))
      | InstantQueryOp \<Rightarrow>
          (case ParseInstantQuery r of
             Inl err \<Rightarrow> Inl (BadRequest err)
           | Inr req \<Rightarrow>
               Inr (InstantQuery
                 \<lparr>iQuery = iq_Query req, iLimit = iq_Limit req, TimeTs = iq_Ts req,
                  iDirection = iq_Direction req, iPath = URL_Path r,
                  iShards = iq_Shards req\<rparr>))
      | SeriesOp \<Rightarrow>
          (case ParseAndValidateSeriesQuery r of
             Inl err \<Rightarrow> Inl (BadRequest err)
           | Inr req \<Rightarrow>
               Inr (SeriesQuery
                 \<lparr>Match = sq_Groups req, sStartTs = sq_Start req, sEndTs = sq_End req,
                  sPath = URL_Path r, sShards = sq_Shards req\<rparr>))
      | LabelNamesOp \<Rightarrow>
          (case ParseLabelQuery r of
             Inl err \<Rightarrow> Inl (BadRequest err)
           | Inr req \<Rightarrow>
               Inr (LabelNamesQuery
                 \<lparr>lStartTs = lq_Start req, lEndTs = lq_End req, lPath = URL_Path r\<rparr>))
      | UnknownOp \<Rightarrow> Inl (BadRequest (''unknown request path: '' @ URL_Path r)))"

section \<open>Notions used by the properties of the codec\<close>

text \<open>Decoding what was encoded.\<close>

definition roundTrip :: "externals \<Rightarrow> string \<Rightarrow> request \<Rightarrow> error + request" where
  "roundTrip ext queryTags r =
     (case EncodeRequest ext queryTags r of Inl err \<Rightarrow> Inl err | Inr h \<Rightarrow> DecodeRequest ext h)"

text \<open>
  The path that \<open>EncodeRequest\<close> writes for a request, a request with another path, and
  a range query with another step.
\<close>

fun canonicalPath :: "request \<Rightarrow> string" where
  "canonicalPath (RangeQuery _) = ''/loki/api/v1/query_range''"
| "canonicalPath (InstantQuery _) = ''/loki/api/v1/query''"
| "canonicalPath (SeriesQuery _) = ''/loki/api/v1/series''"
| "canonicalPath (LabelNamesQuery _) = ''/loki/api/v1/labels''"

fun withPath :: "request \<Rightarrow> string \<Rightarrow> request" where
  "withPath (RangeQuery q) p = RangeQuery (q\<lparr>Path := p\<rparr>)"
| "withPath (InstantQuery q) p = InstantQuery (q\<lparr>iPath := p\<rparr>)"
| "withPath (SeriesQuery q) p = SeriesQuery (q\<lparr>sPath := p\<rparr>)"
| "withPath (LabelNamesQuery q) p = LabelNamesQuery (q\<lparr>lPath := p\<rparr>)"

fun withStep :: "request \<Rightarrow> int \<Rightarrow> request" where
  "withStep (RangeQuery q) step = RangeQuery (q\<lparr>Step := step\<rparr>)"
| "withStep r step = r"

text \<open>The values of the parameter \<^verbatim>\<open>step\<close> that \<open>EncodeRequest\<close> writes.\<close>

definition stepParam :: "externals \<Rightarrow> request \<Rightarrow> string list" where
  "stepParam ext r = (if GetStep r \<noteq> 0 then [FormatStep ext (GetStep r)] else [])"

fun GetPath :: "request \<Rightarrow> string" where
  "GetPath (RangeQuery q) = Path q"
| "GetPath (InstantQuery q) = iPath q"
| "GetPath (SeriesQuery q) = sPath q"
| "GetPath (LabelNamesQuery q) = lPath q"

text \<open>For the examples: a range query that came in on the legacy path.\<close>

definition legacy_request :: request where
  "legacy_request =
     RangeQuery \<lparr>Query = ''{a=1}'', Limit = 100, Step = 15000,
       StartTs = 60000000000, EndTs = 120000000000, Direction = FORWARD,
       Path = ''/api/prom/query_range'', Shards = [''0_of_2'']\<rparr>"

section \<open>Cache-key properties\<close>

lemma decimal_small: "n < 10 \<Longrightarrow> decimal n = [digit n]"
  by (subst decimal.simps) simp

lemma decimal_large: "\<not> n < 10 \<Longrightarrow> decimal n = decimal (n div 10) @ [digit (n mod 10)]"
  by (subst decimal.simps) simp

lemma sdiv_nonneg_pos: "0 \<le> a \<Longrightarrow> 0 < b \<Longrightarrow> (a::int) sdiv b = a div b"
  by (simp add: signed_divide_int_def sgn_if)

text \<open>
  C2, as the code has it: when the split duration is at least one millisecond, the key is
  tenant, query, step in milliseconds, the quotient of the start in milliseconds by the
  split in whole milliseconds (truncated toward zero, which is the floor for a start at or
  after the epoch), and the split duration in nanoseconds, joined by colons.
\<close>

theorem GenerateCacheKey_schema:
  assumes "nanosPerMilli \<le> QuerySplitDuration l tenant"
  shows "GenerateCacheKey l tenant r =
           Returns (tenant @ '':'' @ GetQuery r @ '':'' @ fmt_d (GetStep r) @ '':''
             @ fmt_d (GetStart r sdiv (QuerySplitDuration l tenant div nanosPerMilli))
             @ '':'' @ fmt_d (QuerySplitDuration l tenant))
         \<and> (0 \<le> GetStart r \<longrightarrow>
              GetStart r sdiv (QuerySplitDuration l tenant div nanosPerMilli)
              = GetStart r div (QuerySplitDuration l tenant div nanosPerMilli))"
proof -
  let ?split = "QuerySplitDuration l tenant"
  have pos: "0 < ?split div nanosPerMilli"
    using assms by (simp add: nanosPerMilli_def pos_imp_zdiv_pos_iff)
  have sd: "?split sdiv nanosPerMilli = ?split div nanosPerMilli"
    using assms by (intro sdiv_nonneg_pos) (simp_all add: nanosPerMilli_def)
  show ?thesis
    using pos sd by (simp add: GenerateCacheKey_def Let_def sdiv_nonneg_pos)
qed

theorem GenerateCacheKey_schema_witness:
  "nanosPerMilli \<le> QuerySplitDuration (scenario_limits 60000000000) ''t''
   \<and> 0 \<le> GetStart scenario_request
   \<and> GenerateCacheKey (scenario_limits 60000000000) ''t'' scenario_request
       = Returns ''t:{a=1}:15000:1:60000000000''"
  using GenerateCacheKey_schema [of "scenario_limits 60000000000" "''t''" scenario_request]
  by (simp add: scenario_limits_def scenario_request_def nanosPerMilli_def
      signed_divide_int_def fmt_d_def decimal_small decimal_large digit_def)

text \<open>
  C2 as stated fails on the spec's own scenario: with a split of 30 s the last field of the
  key is 30000000000, the duration in nanoseconds, not 30000. A positive split below one
  millisecond makes the call panic, and a start before the epoch is not rounded down.
\<close>

theorem GenerateCacheKey_millis_counterexample:
  "GenerateCacheKey (scenario_limits 30000000000) ''t'' scenario_request
     = Returns ''t:{a=1}:15000:2:30000000000''
   \<and> GenerateCacheKey (scenario_limits 30000000000) ''t'' scenario_request
     \<noteq> Returns ''t:{a=1}:15000:2:30000''
   \<and> GenerateCacheKey (scenario_limits 60000000000) ''t'' scenario_request
     \<noteq> Returns ''t:{a=1}:15000:1:60000''
   \<and> GenerateCacheKey (scenario_limits 999999) ''t'' scenario_request = Panics
   \<and> GenerateCacheKey (scenario_limits 30000000000) ''t''
        (WithStartEnd scenario_request (- 1) 120000)
     = Returns ''t:{a=1}:15000:0:30000000000''"
  by (simp add: GenerateCacheKey_def scenario_limits_def scenario_request_def nanosPerMilli_def
      unixMilli_def signed_divide_int_def fmt_d_def decimal_small decimal_large digit_def)

section \<open>Properties of the response merger\<close>

lemma assertEach_Returns:
  "assertEach f rs = Returns xs \<Longrightarrow> length xs = length rs"
  by (induction rs arbitrary: xs) (auto split: outcome.splits)

lemma assertEach_map:
  "(\<And>x. f (C x) = Returns x) \<Longrightarrow> assertEach f (map C xs) = Returns xs"
  by (induction xs) auto

lemma assertEach_Panics:
  "\<exists>r\<in>set rs. f r = Panics \<Longrightarrow> assertEach f rs = Panics"
proof (induction rs)
  case Nil
  then show ?case by simp
next
  case (Cons a rs)
  show ?case
  proof (cases "f a")
    case Panics
    then show ?thesis by simp
  next
    case (Returns x)
    with Cons.prems have "\<exists>r\<in>set rs. f r = Panics" by auto
    then have "assertEach f rs = Panics" by (rule Cons.IH)
    with Returns show ?thesis by simp
  qed
qed

lemma firstAppearances_snoc:
  "firstAppearances key (xs @ [x]) =
     firstAppearances key xs @ (if key x \<in> key ` set xs then [] else [x])"
proof -
  have a: "filter (\<lambda>i. \<forall>j<i. key ((xs @ [x]) ! j) \<noteq> key ((xs @ [x]) ! i)) [0..<length xs]
         = filter (\<lambda>i. \<forall>j<i. key (xs ! j) \<noteq> key (xs ! i)) [0..<length xs]"
    by (rule filter_cong) (auto simp: nth_append)
  have b: "map (\<lambda>i. (xs @ [x]) ! i) (filter (\<lambda>i. \<forall>j<i. key (xs ! j) \<noteq> key (xs ! i)) [0..<length xs])
         = map (\<lambda>i. xs ! i) (filter (\<lambda>i. \<forall>j<i. key (xs ! j) \<noteq> key (xs ! i)) [0..<length xs])"
    by (rule map_cong) (auto simp: nth_append)
  have c: "(\<forall>j<length xs. key ((xs @ [x]) ! j) \<noteq> key x) \<longleftrightarrow> key x \<notin> key ` set xs"
  proof
    assume h: "\<forall>j<length xs. key ((xs @ [x]) ! j) \<noteq> key x"
    show "key x \<notin> key ` set xs"
    proof
      assume "key x \<in> key ` set xs"
      then obtain y where "y \<in> set xs" "key y = key x" by auto
      then obtain j where "j < length xs" "xs ! j = y" by (auto simp: in_set_conv_nth)
      with h \<open>key y = key x\<close> show False by (auto simp: nth_append)
    qed
  next
    assume "key x \<notin> key ` set xs"
    then show "\<forall>j<length xs. key ((xs @ [x]) ! j) \<noteq> key x"
      by (metis image_eqI nth_append nth_mem)
  qed
  show ?thesis
    unfolding firstAppearances_def using a b c by (simp add: nth_append)
qed

lemma firstAppearances_Nil: "firstAppearances key [] = []"
  by (simp add: firstAppearances_def)

lemma fold_appendUnique:
  "fold (appendUnique key) xs ([], {}) = (firstAppearances key xs, key ` set xs)"
proof (induction xs rule: rev_induct)
  case Nil
  show ?case by (simp add: firstAppearances_Nil)
next
  case (snoc x xs)
  then show ?case
    by (auto simp: firstAppearances_snoc appendUnique_def)
qed

lemma fold_fold_concat: "fold (\<lambda>data st. fold f data st) datas st = fold f (concat datas) st"
  by (induction datas arbitrary: st) auto

lemma mergeUnique_firstAppearances:
  "mergeUnique key datas = firstAppearances key (concat datas)"
  by (simp add: mergeUnique_def fold_fold_concat fold_appendUnique)

lemma firstAppearances_distinct: "distinct (map key (firstAppearances key xs))"
proof (induction xs rule: rev_induct)
  case Nil
  show ?case by (simp add: firstAppearances_Nil)
next
  case (snoc x xs)
  have sub: "set (firstAppearances key xs) \<subseteq> set xs"
    by (auto simp: firstAppearances_def)
  with snoc show ?case
    by (auto simp: firstAppearances_snoc)
qed


text \<open>
  C6: the merge of a non-empty list of series responses, and of a non-empty list of
  label-names responses, returns the elements of the inputs, taken in sequence, at the
  positions where their key (the string form of a series, the name itself) appears for the
  first time, in that order; no two elements of the merged list have the same key.
\<close>

theorem MergeResponse_unique_in_order:
  assumes "rs \<noteq> []" and "ls \<noteq> []"
  shows "MergeResponse ext (map SeriesResponse rs) =
           Returns (Inr (SeriesResponse
             \<lparr>sStatus = sStatus (hd rs), sVersion = sVersion (hd rs),
              sData = firstAppearances (SeriesIdentifier_String ext) (concat (map sData rs)),
              sHeaders = []\<rparr>))
         \<and> distinct (map (SeriesIdentifier_String ext)
              (firstAppearances (SeriesIdentifier_String ext) (concat (map sData rs))))
         \<and> MergeResponse ext (map LabelNamesResponse ls) =
           Returns (Inr (LabelNamesResponse
             \<lparr>lStatus = lStatus (hd ls), lVersion = lVersion (hd ls),
              lData = firstAppearances (\<lambda>name. name) (concat (map lData ls)),
              lHeaders = []\<rparr>))
         \<and> distinct (firstAppearances (\<lambda>name. name) (concat (map lData ls)))"
proof -
  obtain r rs' where rs: "rs = r # rs'" using assms(1) by (cases rs) auto
  obtain l ls' where ls: "ls = l # ls'" using assms(2) by (cases ls) auto
  have a: "assertEach asLokiSeriesResponse (map SeriesResponse rs) = Returns rs"
    by (rule assertEach_map) simp
  have b: "assertEach asLokiLabelNamesResponse (map LabelNamesResponse ls) = Returns ls"
    by (rule assertEach_map) simp
  have c: "distinct (firstAppearances (\<lambda>name. name) (concat (map lData ls)))"
    using firstAppearances_distinct [of "\<lambda>name. name" "concat (map lData ls)"] by simp
  have s1: "MergeResponse ext (map SeriesResponse rs) =
           Returns (Inr (SeriesResponse
             \<lparr>sStatus = sStatus (hd rs), sVersion = sVersion (hd rs),
              sData = firstAppearances (SeriesIdentifier_String ext) (concat (map sData rs)),
              sHeaders = []\<rparr>))"
    using a unfolding rs by (simp add: MergeResponse_def mergeUnique_firstAppearances)
  have s2: "MergeResponse ext (map LabelNamesResponse ls) =
           Returns (Inr (LabelNamesResponse
             \<lparr>lStatus = lStatus (hd ls), lVersion = lVersion (hd ls),
              lData = firstAppearances (\<lambda>name. name) (concat (map lData ls)),
              lHeaders = []\<rparr>))"
    using b unfolding ls by (simp add: MergeResponse_def mergeUnique_firstAppearances)
  show ?thesis
    using s1 s2 c firstAppearances_distinct by blast
qed

theorem MergeResponse_unique_in_order_witness:
  "[example_SeriesResponse [example_series ''1'' ''2'', example_series ''1'' ''3''],
    example_SeriesResponse [example_series ''1'' ''2'', example_series ''1'' ''4'']] \<noteq> []
   \<and> [example_LabelNamesResponse [''foo'', ''bar''], example_LabelNamesResponse [''bar'', ''baz'']] \<noteq> []
   \<and> MergeResponse example_externals
       [SeriesResponse (example_SeriesResponse [example_series ''1'' ''2'', example_series ''1'' ''3'']),
        SeriesResponse (example_SeriesResponse [example_series ''1'' ''2'', example_series ''1'' ''4''])]
     = Returns (Inr (SeriesResponse (example_SeriesResponse
         [example_series ''1'' ''2'', example_series ''1'' ''3'', example_series ''1'' ''4''])))
   \<and> MergeResponse example_externals
       [LabelNamesResponse (example_LabelNamesResponse [''foo'', ''bar'']),
        LabelNamesResponse (example_LabelNamesResponse [''bar'', ''baz''])]
     = Returns (Inr (LabelNamesResponse (example_LabelNamesResponse [''foo'', ''bar'', ''baz''])))"
  using MergeResponse_unique_in_order [of
      "[example_SeriesResponse [example_series ''1'' ''2'', example_series ''1'' ''3''],
        example_SeriesResponse [example_series ''1'' ''2'', example_series ''1'' ''4'']]"
      "[example_LabelNamesResponse [''foo'', ''bar''], example_LabelNamesResponse [''bar'', ''baz'']]"
      example_externals]
  by (simp add: example_SeriesResponse_def example_LabelNamesResponse_def example_series_def
      example_externals_def firstAppearances_def less_Suc_eq all_conj_distrib)

text \<open>
  C10: the merge of no responses returns an error. The merge of a non-empty list goes by the
  type of the first response: a merged response, when one is returned, has the type of the
  first response, and a first response of a type outside the package gives an error.
\<close>

theorem MergeResponse_dispatch:
  "MergeResponse ext [] =
     Returns (Inl (PlainError ''merging responses requires at least one response''))
   \<and> (\<forall>merged. MergeResponse ext (first # rest) = Returns (Inr merged)
        \<longrightarrow> sameVariant first merged)
   \<and> MergeResponse ext (OtherResponse # rest) =
       Returns (Inl (PlainError ''unknown response in merging responses''))"
  by (cases first)
    (auto simp: MergeResponse_def Let_def split: outcome.splits sum.splits)

theorem MergeResponse_dispatch_witness:
  "MergeResponse example_externals [LabelNamesResponse (example_LabelNamesResponse [''foo''])]
     = Returns (Inr (LabelNamesResponse (example_LabelNamesResponse [''foo''])))
   \<and> sameVariant (LabelNamesResponse (example_LabelNamesResponse [''foo'']))
       (LabelNamesResponse (example_LabelNamesResponse [''foo'']))"
proof -
  have m: "MergeResponse example_externals [LabelNamesResponse (example_LabelNamesResponse [''foo''])]
     = Returns (Inr (LabelNamesResponse (example_LabelNamesResponse [''foo''])))"
    by (simp add: MergeResponse_def example_LabelNamesResponse_def mergeUnique_def appendUnique_def)
  show ?thesis
    using m MergeResponse_dispatch [of example_externals
        "LabelNamesResponse (example_LabelNamesResponse [''foo''])" "[]"]
    by simp
qed

lemma other_variant_Panics:
  "\<not> sameVariant (MetricResponse m) res \<Longrightarrow> asLokiPromResponse res = Panics"
  "\<not> sameVariant (LogStreamResponse g) res \<Longrightarrow> asLokiResponse res = Panics"
  "\<not> sameVariant (SeriesResponse s) res \<Longrightarrow> asLokiSeriesResponse res = Panics"
  "\<not> sameVariant (LabelNamesResponse n) res \<Longrightarrow> asLokiLabelNamesResponse res = Panics"
  by (cases res; simp)+

text \<open>
  C7, as the code has it: when the first response is of one of the package's four types and
  a later response is of another type, the merge does not return an error: the type
  assertion on that response panics.
\<close>

theorem MergeResponse_mixed_panics:
  assumes "first \<noteq> OtherResponse" and "\<exists>res\<in>set rest. \<not> sameVariant first res"
  shows "MergeResponse ext (first # rest) = Panics"
proof (cases first)
  case (MetricResponse x)
  have "\<exists>res\<in>set (first # rest). asLokiPromResponse res = Panics"
    using assms(2) MetricResponse by (auto dest: other_variant_Panics)
  then have "assertEach asLokiPromResponse (first # rest) = Panics" by (rule assertEach_Panics)
  then show ?thesis unfolding MetricResponse by (simp add: MergeResponse_def del: assertEach.simps)
next
  case (LogStreamResponse x)
  have "\<exists>res\<in>set (first # rest). asLokiResponse res = Panics"
    using assms(2) LogStreamResponse by (auto dest: other_variant_Panics)
  then have "assertEach asLokiResponse (first # rest) = Panics" by (rule assertEach_Panics)
  then show ?thesis unfolding LogStreamResponse by (simp add: MergeResponse_def del: assertEach.simps)
next
  case (SeriesResponse x)
  have "\<exists>res\<in>set (first # rest). asLokiSeriesResponse res = Panics"
    using assms(2) SeriesResponse by (auto dest: other_variant_Panics)
  then have "assertEach asLokiSeriesResponse (first # rest) = Panics" by (rule assertEach_Panics)
  then show ?thesis unfolding SeriesResponse by (simp add: MergeResponse_def del: assertEach.simps)
next
  case (LabelNamesResponse x)
  have "\<exists>res\<in>set (first # rest). asLokiLabelNamesResponse res = Panics"
    using assms(2) LabelNamesResponse by (auto dest: other_variant_Panics)
  then have "assertEach asLokiLabelNamesResponse (first # rest) = Panics" by (rule assertEach_Panics)
  then show ?thesis unfolding LabelNamesResponse by (simp add: MergeResponse_def del: assertEach.simps)
next
  case OtherResponse
  with assms(1) show ?thesis by simp
qed

theorem MergeResponse_mixed_panics_witness:
  "SeriesResponse (example_SeriesResponse [example_series ''1'' ''2'']) \<noteq> OtherResponse
   \<and> (\<exists>res\<in>set [LabelNamesResponse (example_LabelNamesResponse [''foo''])].
        \<not> sameVariant (SeriesResponse (example_SeriesResponse [example_series ''1'' ''2''])) res)
   \<and> MergeResponse example_externals
       [SeriesResponse (example_SeriesResponse [example_series ''1'' ''2'']),
        LabelNamesResponse (example_LabelNamesResponse [''foo''])] = Panics"
  using MergeResponse_mixed_panics [of
      "SeriesResponse (example_SeriesResponse [example_series ''1'' ''2''])"
      "[LabelNamesResponse (example_LabelNamesResponse [''foo''])]" example_externals]
  by simp

text \<open>
  C7 as stated fails: the merge of a label-names response followed by a series response
  returns no error, it panics.
\<close>

theorem MergeResponse_mixed_counterexample:
  "MergeResponse example_externals
     [LabelNamesResponse (example_LabelNamesResponse [''foo'']),
      SeriesResponse (example_SeriesResponse [example_series ''1'' ''2''])] = Panics"
  by (simp add: MergeResponse_def)

section \<open>Properties of the limits middleware\<close>

lemma sdiv_mult_self: "(m * nanosPerMilli) sdiv nanosPerMilli = m"
  by (simp add: signed_divide_int_def nanosPerMilli_def sgn_mult abs_mult)
    (simp add: sgn_if)

lemma GetStart_WithStartEnd: "GetStart (WithStartEnd r s e) = s"
  by (cases r) (simp_all add: unixMilli_def sdiv_mult_self)

lemma GetEnd_WithStartEnd:
  "GetEnd (WithStartEnd r s e) = (case r of InstantQuery _ \<Rightarrow> s | _ \<Rightarrow> e)"
  by (cases r) (simp_all add: unixMilli_def sdiv_mult_self)

lemma instant_start_end: "r = InstantQuery q \<Longrightarrow> GetStart r = GetEnd r"
  by simp

lemma NewEmptyResponse_shape:
  "case NewEmptyResponse ext r of
     Inr resp \<Rightarrow> emptyFor r resp
   | Inl err \<Rightarrow> \<exists>q msg. r = RangeQuery q \<and> ParseExpr ext (Query q) = Inl msg \<and> err = BadRequest msg"
  by (cases r) (auto simp: NewEmptyPrometheusResponse_def split: sum.splits)

text \<open>
  C4, as the code has it. With a resolved lookback above 0 and the least start time the
  milliseconds of now minus the lookback: a request that ends before it is answered by
  \<^verbatim>\<open>NewEmptyResponse\<close> and the next handler is not called; the answer is a response
  without data of the request's type, or the error of the parser for a range query whose
  query does not parse. A request that ends later and starts before it is cloned with
  that start and the same end in milliseconds; the clone is what the length check sees: it
  is passed to the next handler, unless it is longer than a positive maximal length.
\<close>

theorem limitsMiddleware_lookback:
  assumes "lookback = SmallestPositiveNonZeroDurationPerTenant tenantIDs (MaxQueryLookback l)"
    and "0 < lookback"
    and "minStart = TimeToMillis (now - lookback)"
    and "maxLength = SmallestPositiveNonZeroDurationPerTenant tenantIDs (MaxQueryLength l)"
  shows "(GetEnd r < minStart \<longrightarrow>
            snd (limitsMiddleware_Do ext l next now (Inr tenantIDs) r) = []
            \<and> (case fst (limitsMiddleware_Do ext l next now (Inr tenantIDs) r) of
                 Inr resp \<Rightarrow> emptyFor r resp
               | Inl err \<Rightarrow> \<exists>q msg. r = RangeQuery q \<and> ParseExpr ext (Query q) = Inl msg
                                \<and> err = BadRequest msg))
         \<and> (\<not> GetEnd r < minStart \<and> GetStart r < minStart \<longrightarrow>
              (\<exists>r'. r' = WithStartEnd r minStart (GetEnd r)
                 \<and> GetStart r' = minStart \<and> GetEnd r' = GetEnd r
                 \<and> (if 0 < maxLength \<and> maxLength < queryLength r'
                     then limitsMiddleware_Do ext l next now (Inr tenantIDs) r
                          = (Inl (QueryTooLong (queryLength r') maxLength), [])
                     else limitsMiddleware_Do ext l next now (Inr tenantIDs) r
                          = (next r', [r']))))"
proof (intro conjI impI)
  assume e: "GetEnd r < minStart"
  have d: "limitsMiddleware_Do ext l next now (Inr tenantIDs) r = (NewEmptyResponse ext r, [])"
    using assms e by (simp add: limitsMiddleware_Do_def Let_def)
  show "snd (limitsMiddleware_Do ext l next now (Inr tenantIDs) r) = []"
    by (simp add: d)
  show "case fst (limitsMiddleware_Do ext l next now (Inr tenantIDs) r) of
          Inr resp \<Rightarrow> emptyFor r resp
        | Inl err \<Rightarrow> \<exists>q msg. r = RangeQuery q \<and> ParseExpr ext (Query q) = Inl msg
                         \<and> err = BadRequest msg"
    using NewEmptyResponse_shape [where ext=ext and r=r] by (simp add: d)
next
  assume c: "\<not> GetEnd r < minStart \<and> GetStart r < minStart"
  let ?r' = "WithStartEnd r minStart (GetEnd r)"
  have ni: "\<And>q. r \<noteq> InstantQuery q"
    using c by auto
  have ge: "GetEnd ?r' = GetEnd r"
    using ni by (simp add: GetEnd_WithStartEnd split: request.splits)
  have "if 0 < maxLength \<and> maxLength < queryLength ?r'
        then limitsMiddleware_Do ext l next now (Inr tenantIDs) r
             = (Inl (QueryTooLong (queryLength ?r') maxLength), [])
        else limitsMiddleware_Do ext l next now (Inr tenantIDs) r = (next ?r', [?r'])"
    using assms c by (simp add: limitsMiddleware_Do_def Let_def)
  then show "\<exists>r'. r' = WithStartEnd r minStart (GetEnd r)
       \<and> GetStart r' = minStart \<and> GetEnd r' = GetEnd r
       \<and> (if 0 < maxLength \<and> maxLength < queryLength r'
           then limitsMiddleware_Do ext l next now (Inr tenantIDs) r
                = (Inl (QueryTooLong (queryLength r') maxLength), [])
           else limitsMiddleware_Do ext l next now (Inr tenantIDs) r = (next r', [r']))"
    using ge by (simp add: GetStart_WithStartEnd)
qed

lemma example_smallest:
  "SmallestPositiveNonZeroDurationPerTenant [''t''] (\<lambda>_. v) = (if 0 < v then v else 0)"
  by (simp add: SmallestPositiveNonZeroDurationPerTenant_def)


theorem limitsMiddleware_lookback_witness:
  "0 < seconds 60
   \<and> GetEnd (example_range ''{a=1}'' 900 930) < 940000
   \<and> limitsMiddleware_Do example_externals (example_limits (seconds 60) 0) example_next
         (seconds 1000) (Inr [''t'']) (example_range ''{a=1}'' 900 930)
       = (NewEmptyResponse example_externals (example_range ''{a=1}'' 900 930), [])
   \<and> emptyFor (example_range ''{a=1}'' 900 930)
        (LogStreamResponse
          \<lparr>Status = QueryStatusSuccess, rDirection = BACKWARD, rLimit = 100,
           Version = 1, ErrorType = [], Error = [],
           Statistics = stats_zero, ResultType = ResultTypeStream, Result = [],
           Headers = []\<rparr>)
   \<and> \<not> GetEnd (example_range ''{a=1}'' 900 999) < 940000
   \<and> GetStart (example_range ''{a=1}'' 900 999) < 940000
   \<and> limitsMiddleware_Do example_externals (example_limits (seconds 60) 0) example_next
         (seconds 1000) (Inr [''t'']) (example_range ''{a=1}'' 900 999)
       = (example_next (example_range ''{a=1}'' 940 999), [example_range ''{a=1}'' 940 999])"
proof -
  have a: "seconds 60 =
      SmallestPositiveNonZeroDurationPerTenant [''t'']
        (MaxQueryLookback (example_limits (seconds 60) 0))"
    by (simp add: example_limits_def example_smallest seconds_def)
  have b: "0 < seconds 60" by (simp add: seconds_def)
  have c: "940000 = TimeToMillis (seconds 1000 - seconds 60)"
    by (simp add: TimeToMillis_def seconds_def nanosPerMilli_def signed_divide_int_def)
  have d: "0 = SmallestPositiveNonZeroDurationPerTenant [''t'']
        (MaxQueryLength (example_limits (seconds 60) 0))"
    by (simp add: example_limits_def example_smallest)
  have e: "WithStartEnd (example_range ''{a=1}'' 900 999) 940000
             (GetEnd (example_range ''{a=1}'' 900 999)) = example_range ''{a=1}'' 940 999"
    by (simp add: example_range_def seconds_def unixMilli_def nanosPerMilli_def
        signed_divide_int_def)
  have f: "NewEmptyResponse example_externals (example_range ''{a=1}'' 900 930)
      = Inr (LogStreamResponse
          \<lparr>Status = QueryStatusSuccess, rDirection = BACKWARD, rLimit = 100,
           Version = 1, ErrorType = [], Error = [],
           Statistics = stats_zero, ResultType = ResultTypeStream, Result = [],
           Headers = []\<rparr>)"
    by (simp add: example_range_def example_externals_def)
  have g: "limitsMiddleware_Do example_externals (example_limits (seconds 60) 0) example_next
         (seconds 1000) (Inr [''t'']) (example_range ''{a=1}'' 900 930)
       = (NewEmptyResponse example_externals (example_range ''{a=1}'' 900 930), [])"
    by (simp add: limitsMiddleware_Do_def example_limits_def example_smallest seconds_def
        TimeToMillis_def nanosPerMilli_def signed_divide_int_def example_range_def unixMilli_def
        queryLength_def Sub_def Let_def)
  have h: "GetEnd (example_range ''{a=1}'' 900 930) < 940000"
    "\<not> GetEnd (example_range ''{a=1}'' 900 999) < 940000"
    "GetStart (example_range ''{a=1}'' 900 999) < 940000"
    by (simp_all add: example_range_def seconds_def nanosPerMilli_def signed_divide_int_def)
  have i: "\<not> (0 < (0::int) \<and> 0 < queryLength (example_range ''{a=1}'' 940 999))"
    by simp
  from limitsMiddleware_lookback [OF a b c d,
        of "example_range ''{a=1}'' 900 999" example_externals example_next] h e i
  have j: "limitsMiddleware_Do example_externals (example_limits (seconds 60) 0) example_next
         (seconds 1000) (Inr [''t'']) (example_range ''{a=1}'' 900 999)
       = (example_next (example_range ''{a=1}'' 940 999), [example_range ''{a=1}'' 940 999])"
    by simp
  from limitsMiddleware_lookback [OF a b c d,
        of "example_range ''{a=1}'' 900 930" example_externals example_next] h
  have k: "emptyFor (example_range ''{a=1}'' 900 930)
        (LogStreamResponse
          \<lparr>Status = QueryStatusSuccess, rDirection = BACKWARD, rLimit = 100,
           Version = 1, ErrorType = [], Error = [],
           Statistics = stats_zero, ResultType = ResultTypeStream, Result = [],
           Headers = []\<rparr>)"
    by (simp add: g f)
  show ?thesis
    using b g h j k by simp
qed

text \<open>
  C4 as stated fails: a range query with a query that does not parse gets an error in place
  of an empty response, and a clamped request that is still longer than the maximal length
  is refused and not passed on.
\<close>

theorem limitsMiddleware_lookback_counterexample:
  "limitsMiddleware_Do example_externals (example_limits (seconds 60) 0) example_next
     (seconds 1000) (Inr [''t'']) (example_range [] 900 930)
     = (Inl (BadRequest ''syntax error: unexpected $end''), [])
   \<and> limitsMiddleware_Do example_externals (example_limits (seconds 60) (seconds 10))
       example_next (seconds 1000) (Inr [''t'']) (example_range ''{a=1}'' 900 999)
     = (Inl (QueryTooLong (seconds 59) (seconds 10)), [])"
  by (simp add: limitsMiddleware_Do_def example_limits_def example_smallest seconds_def
        TimeToMillis_def nanosPerMilli_def signed_divide_int_def example_range_def unixMilli_def
        queryLength_def Sub_def Let_def maxDuration_def minDuration_def example_externals_def)

text \<open>
  C8, as the code has it: the length that is checked is the end minus the start that the
  lookback stage leaves. With a resolved maximal length above 0, a request that the lookback
  stage does not answer itself and whose end minus that start exceeds the maximal length
  fails with the error of a query too long, and the next handler is not called.
\<close>

theorem limitsMiddleware_max_length:
  assumes "lookback = SmallestPositiveNonZeroDurationPerTenant tenantIDs (MaxQueryLookback l)"
    and "minStart = TimeToMillis (now - lookback)"
    and "maxLength = SmallestPositiveNonZeroDurationPerTenant tenantIDs (MaxQueryLength l)"
    and "0 < maxLength"
    and "\<not> (0 < lookback \<and> GetEnd r < minStart)"
    and "effectiveStart = (if 0 < lookback \<and> GetStart r < minStart then minStart else GetStart r)"
    and "maxLength < Sub (unixMilli (GetEnd r)) (unixMilli effectiveStart)"
  shows "limitsMiddleware_Do ext l next now (Inr tenantIDs) r =
           (Inl (QueryTooLong (Sub (unixMilli (GetEnd r)) (unixMilli effectiveStart)) maxLength),
            [])"
proof (cases "0 < lookback \<and> GetStart r < minStart")
  case True
  let ?r' = "WithStartEnd r minStart (GetEnd r)"
  have "\<not> GetEnd r < minStart" using True assms(5) by simp
  with True have ni: "\<And>q. r \<noteq> InstantQuery q" by auto
  have ge: "GetEnd ?r' = GetEnd r"
    using ni by (simp add: GetEnd_WithStartEnd split: request.splits)
  have ql: "queryLength ?r' = Sub (unixMilli (GetEnd r)) (unixMilli effectiveStart)"
    using True assms(6) by (simp add: queryLength_def ge GetStart_WithStartEnd)
  show ?thesis
    using True assms(1-5,7) ql by (simp add: limitsMiddleware_Do_def Let_def)
next
  case False
  have "effectiveStart = GetStart r"
    using False assms(6) by auto
  then have ql: "queryLength r = Sub (unixMilli (GetEnd r)) (unixMilli effectiveStart)"
    by (simp add: queryLength_def)
  show ?thesis
    using False assms(1-5,7) ql
    by (auto simp add: limitsMiddleware_Do_def Let_def)
qed

theorem limitsMiddleware_max_length_witness:
  "0 < seconds 100
   \<and> \<not> (0 < (0::int) \<and> GetEnd (example_range ''{a=1}'' 800 999) < 1000000)
   \<and> seconds 100 < Sub (unixMilli (GetEnd (example_range ''{a=1}'' 800 999)))
                      (unixMilli (GetStart (example_range ''{a=1}'' 800 999)))
   \<and> limitsMiddleware_Do example_externals (example_limits 0 (seconds 100)) example_next
       (seconds 1000) (Inr [''t'']) (example_range ''{a=1}'' 800 999)
     = (Inl (QueryTooLong (seconds 199) (seconds 100)), [])"
proof -
  have a: "0 = SmallestPositiveNonZeroDurationPerTenant [''t'']
        (MaxQueryLookback (example_limits 0 (seconds 100)))"
    by (simp add: example_limits_def example_smallest)
  have b: "1000000 = TimeToMillis (seconds 1000 - 0)"
    by (simp add: TimeToMillis_def seconds_def nanosPerMilli_def signed_divide_int_def)
  have c: "seconds 100 = SmallestPositiveNonZeroDurationPerTenant [''t'']
        (MaxQueryLength (example_limits 0 (seconds 100)))"
    by (simp add: example_limits_def example_smallest seconds_def)
  have d: "0 < seconds 100" by (simp add: seconds_def)
  have e: "\<not> (0 < (0::int) \<and> GetEnd (example_range ''{a=1}'' 800 999) < 1000000)" by simp
  have f: "GetStart (example_range ''{a=1}'' 800 999) =
     (if 0 < (0::int) \<and> GetStart (example_range ''{a=1}'' 800 999) < 1000000 then 1000000
      else GetStart (example_range ''{a=1}'' 800 999))" by simp
  have v: "Sub (unixMilli (GetEnd (example_range ''{a=1}'' 800 999)))
                      (unixMilli (GetStart (example_range ''{a=1}'' 800 999))) = seconds 199"
    by (simp add: example_range_def seconds_def nanosPerMilli_def signed_divide_int_def
        unixMilli_def Sub_def maxDuration_def minDuration_def)
  have g: "seconds 100 < Sub (unixMilli (GetEnd (example_range ''{a=1}'' 800 999)))
                      (unixMilli (GetStart (example_range ''{a=1}'' 800 999)))"
    unfolding v by (simp add: seconds_def)
  show ?thesis
    using limitsMiddleware_max_length [OF a b c d e f g, of example_externals example_next] d e g
    by (simp only: v) simp
qed

text \<open>
  C8 as stated fails: a request of 199 s, against a maximal length of 100 s, is clamped by a
  lookback of 60 s and passed on, and one that ends before the lookback gets the empty
  response.
\<close>

theorem limitsMiddleware_max_length_counterexample:
  "limitsMiddleware_Do example_externals (example_limits (seconds 60) (seconds 100))
       example_next (seconds 1000) (Inr [''t'']) (example_range ''{a=1}'' 800 999)
     = (example_next (example_range ''{a=1}'' 940 999), [example_range ''{a=1}'' 940 999])
   \<and> limitsMiddleware_Do example_externals (example_limits (seconds 60) (seconds 100))
       example_next (seconds 1000) (Inr [''t'']) (example_range ''{a=1}'' 800 930)
     = (NewEmptyResponse example_externals (example_range ''{a=1}'' 800 930), [])"
  by (simp add: limitsMiddleware_Do_def example_limits_def example_smallest seconds_def
        TimeToMillis_def nanosPerMilli_def signed_divide_int_def example_range_def unixMilli_def
        queryLength_def Sub_def Let_def maxDuration_def minDuration_def)

section \<open>Properties of the series limiter\<close>

lemma limitErr_cong: "maxSeries a = maxSeries b \<Longrightarrow> limitErr a = limitErr b"
  by (simp add: limitErr_def)

lemma Do_reached:
  "isLimitReached (fst st) \<Longrightarrow> seriesLimiter_Do ext next req st = (Inl (limitErr (fst st)), st)"
  by (simp add: seriesLimiter_Do_def)

lemma Do_maxSeries:
  "maxSeries (fst (snd (seriesLimiter_Do ext next req st))) = maxSeries (fst st)"
  by (auto simp: seriesLimiter_Do_def Let_def split: sum.splits response.splits option.splits)

lemma Do_limitErr:
  "limitErr (fst (snd (seriesLimiter_Do ext next req st))) = limitErr (fst st)"
  by (rule limitErr_cong) (rule Do_maxSeries)

lemma Do_rejects_iff:
  assumes "next req \<noteq> Inl (limitErr (fst st))"
  shows "fst (seriesLimiter_Do ext next req st) = Inl (limitErr (fst st))
         \<longleftrightarrow> isLimitReached (fst (snd (seriesLimiter_Do ext next req st)))"
proof (cases "isLimitReached (fst st)")
  case True
  then show ?thesis by (simp add: Do_reached)
next
  case False
  show ?thesis
  proof (cases "next req")
    case (Inl err)
    with False assms show ?thesis by (simp add: seriesLimiter_Do_def)
  next
    case (Inr resp)
    show ?thesis
    proof (cases resp)
      case (MetricResponse m)
      show ?thesis
      proof (cases "Response m")
        case None
        with False Inr MetricResponse show ?thesis by (simp add: seriesLimiter_Do_def)
      next
        case (Some prom)
        with False Inr MetricResponse show ?thesis
          by (simp add: seriesLimiter_Do_def Let_def limitErr_def)
      qed
    qed (use False Inr in \<open>simp_all add: seriesLimiter_Do_def\<close>)
  qed
qed

lemma trace_reached:
  "isLimitReached (fst st) \<Longrightarrow>
     seriesLimiter_trace ext next reqs st = map (\<lambda>_. (Inl (limitErr (fst st)), st)) reqs"
  by (induction reqs) (simp_all add: Do_reached Let_def)

lemma trace_length: "length (seriesLimiter_trace ext next reqs st) = length reqs"
  by (induction reqs arbitrary: st) (simp_all add: Let_def)

lemma trace_rejects_iff:
  assumes "\<forall>req\<in>set reqs. next req \<noteq> Inl (limitErr sl)"
    and "limitErr (fst st) = limitErr sl"
    and "step \<in> set (seriesLimiter_trace ext next reqs st)"
  shows "fst step = Inl (limitErr sl) \<longleftrightarrow> isLimitReached (fst (snd step))"
  using assms
proof (induction reqs arbitrary: st)
  case Nil
  then show ?case by simp
next
  case (Cons req reqs)
  let ?s = "seriesLimiter_Do ext next req st"
  from Cons.prems(3) consider "step = ?s" | "step \<in> set (seriesLimiter_trace ext next reqs (snd ?s))"
    by (auto simp: Let_def)
  then show ?case
  proof cases
    case 1
    have "next req \<noteq> Inl (limitErr (fst st))" using Cons.prems by simp
    then have "fst ?s = Inl (limitErr (fst st)) \<longleftrightarrow> isLimitReached (fst (snd ?s))"
      by (rule Do_rejects_iff [where ext = ext and req = req and st = st])
    then show ?thesis
      unfolding 1 using Cons.prems(2) by simp
  next
    case 2
    have "limitErr (fst (snd ?s)) = limitErr sl"
      using Cons.prems(2) by (simp add: Do_limitErr)
    with Cons.IH [of "snd ?s"] Cons.prems(1) 2 show ?thesis by simp
  qed
qed

lemma trace_after_reached:
  assumes "i < j" and "j < length reqs"
    and "isLimitReached (fst (snd (seriesLimiter_trace ext next reqs st ! i)))"
  shows "seriesLimiter_trace ext next reqs st ! j =
           (Inl (limitErr (fst st)), snd (seriesLimiter_trace ext next reqs st ! i))"
  using assms
proof (induction reqs arbitrary: st i j)
  case Nil
  then show ?case by simp
next
  case (Cons req reqs)
  let ?s = "seriesLimiter_Do ext next req st"
  obtain j' where j: "j = Suc j'" using Cons.prems(1) by (cases j) auto
  have j'len: "j' < length reqs" using Cons.prems(2) j by simp
  show ?case
  proof (cases i)
    case 0
    with Cons.prems(3) have r: "isLimitReached (fst (snd ?s))" by (simp add: Let_def)
    have "seriesLimiter_trace ext next reqs (snd ?s) ! j' = (Inl (limitErr (fst (snd ?s))), snd ?s)"
      using j'len by (simp add: trace_reached [OF r])
    then show ?thesis using 0 j by (simp add: Let_def Do_limitErr)
  next
    case (Suc i')
    have "i' < j'" using Cons.prems(1) Suc j by simp
    moreover note j'len
    moreover have "isLimitReached (fst (snd (seriesLimiter_trace ext next reqs (snd ?s) ! i')))"
      using Cons.prems(3) Suc by (simp add: Let_def)
    ultimately have "seriesLimiter_trace ext next reqs (snd ?s) ! j' =
           (Inl (limitErr (fst (snd ?s))), snd (seriesLimiter_trace ext next reqs (snd ?s) ! i'))"
      by (rule Cons.IH)
    then show ?thesis using Suc j by (simp add: Let_def Do_limitErr)
  qed
qed

text \<open>
  C5: for a sequence of sub-requests handled one after the other by one limiter, whose next
  handler does not itself answer with the limiter's error: a sub-request fails with the
  error of too many series exactly when the set of hashes it leaves has more than
  \<open>maxSeries\<close> elements; once the set a sub-request leaves is that large, every later
  sub-request gets the error and leaves the state, with the list of the requests passed
  to the next handler, as it was; and a sub-request that finds the set within the limit is
  passed to the next handler.
\<close>

theorem seriesLimiter_rejects:
  assumes "\<forall>req\<in>set reqs. next req \<noteq> Inl (limitErr sl)"
  shows "(\<forall>step\<in>set (seriesLimiter_trace ext next reqs (sl, calls)).
            fst step = Inl (limitErr sl) \<longleftrightarrow> isLimitReached (fst (snd step)))
         \<and> (\<forall>i j. i < j \<and> j < length reqs
               \<and> isLimitReached (fst (snd (seriesLimiter_trace ext next reqs (sl, calls) ! i)))
               \<longrightarrow> seriesLimiter_trace ext next reqs (sl, calls) ! j =
                     (Inl (limitErr sl), snd (seriesLimiter_trace ext next reqs (sl, calls) ! i)))
         \<and> (\<forall>req. \<not> isLimitReached sl \<longrightarrow>
               snd (snd (seriesLimiter_Do ext next req (sl, calls))) = calls @ [req])"
proof (intro conjI allI ballI impI)
  fix step
  assume "step \<in> set (seriesLimiter_trace ext next reqs (sl, calls))"
  with assms show "fst step = Inl (limitErr sl) \<longleftrightarrow> isLimitReached (fst (snd step))"
    using trace_rejects_iff [of reqs "next" sl "(sl, calls)" step ext] by simp
next
  fix i j
  assume "i < j \<and> j < length reqs
    \<and> isLimitReached (fst (snd (seriesLimiter_trace ext next reqs (sl, calls) ! i)))"
  then show "seriesLimiter_trace ext next reqs (sl, calls) ! j =
      (Inl (limitErr sl), snd (seriesLimiter_trace ext next reqs (sl, calls) ! i))"
    using trace_after_reached [of i j reqs ext "next" "(sl, calls)"] by simp
next
  fix req
  assume "\<not> isLimitReached sl"
  then show "snd (snd (seriesLimiter_Do ext next req (sl, calls))) = calls @ [req]"
    by (auto simp: seriesLimiter_Do_def Let_def split: sum.splits response.splits option.splits)
qed

theorem seriesLimiter_rejects_witness:
  "example_metric_next (example_range ''a'' 0 1) \<noteq> Inl (limitErr (Wrap 1))
   \<and> example_metric_next (example_range ''bb'' 0 1) \<noteq> Inl (limitErr (Wrap 1))
   \<and> example_metric_next (example_range ''ccc'' 0 1) \<noteq> Inl (limitErr (Wrap 1))
   \<and> seriesLimiter_trace example_externals example_metric_next
       [example_range ''a'' 0 1, example_range ''bb'' 0 1, example_range ''ccc'' 0 1] (Wrap 1, [])
     = [(example_metric_next (example_range ''a'' 0 1),
           (\<lparr>hashes = {1}, maxSeries = 1\<rparr>, [example_range ''a'' 0 1])),
        (Inl (limitErr (Wrap 1)),
           (\<lparr>hashes = {2, 1}, maxSeries = 1\<rparr>,
            [example_range ''a'' 0 1, example_range ''bb'' 0 1])),
        (Inl (limitErr (Wrap 1)),
           (\<lparr>hashes = {2, 1}, maxSeries = 1\<rparr>,
            [example_range ''a'' 0 1, example_range ''bb'' 0 1]))]
   \<and> \<not> isLimitReached \<lparr>hashes = {1}, maxSeries = 1\<rparr>
   \<and> isLimitReached \<lparr>hashes = {2, 1}, maxSeries = 1\<rparr>"
proof -
  have hyp: "\<forall>req\<in>set [example_range ''a'' 0 1, example_range ''bb'' 0 1,
                example_range ''ccc'' 0 1].
               example_metric_next req \<noteq> Inl (limitErr (Wrap 1))"
    by (simp add: example_metric_next_def)
  have tr: "seriesLimiter_trace example_externals example_metric_next
       [example_range ''a'' 0 1, example_range ''bb'' 0 1, example_range ''ccc'' 0 1] (Wrap 1, [])
     = [(example_metric_next (example_range ''a'' 0 1),
           (\<lparr>hashes = {1}, maxSeries = 1\<rparr>, [example_range ''a'' 0 1])),
        (Inl (limitErr (Wrap 1)),
           (\<lparr>hashes = {2, 1}, maxSeries = 1\<rparr>,
            [example_range ''a'' 0 1, example_range ''bb'' 0 1])),
        (Inl (limitErr (Wrap 1)),
           (\<lparr>hashes = {2, 1}, maxSeries = 1\<rparr>,
            [example_range ''a'' 0 1, example_range ''bb'' 0 1]))]"
    by (simp add: seriesLimiter_Do_def Let_def Wrap_def isLimitReached_def
        example_metric_next_def example_externals_def example_range_def limitErr_def)
  have ne: "example_metric_next (example_range ''a'' 0 1) \<noteq> Inl (limitErr (Wrap 1))"
    by (simp add: example_metric_next_def)
  from seriesLimiter_rejects [OF hyp, of example_externals "[]"]
  have "\<forall>step\<in>set (seriesLimiter_trace example_externals example_metric_next
       [example_range ''a'' 0 1, example_range ''bb'' 0 1, example_range ''ccc'' 0 1] (Wrap 1, [])).
            fst step = Inl (limitErr (Wrap 1)) \<longleftrightarrow> isLimitReached (fst (snd step))"
    by blast
  then have "\<not> isLimitReached \<lparr>hashes = {1}, maxSeries = 1\<rparr>
     \<and> isLimitReached \<lparr>hashes = {2, 1}, maxSeries = 1\<rparr>"
    unfolding tr using ne by simp
  then show ?thesis
    using hyp tr by simp
qed

section \<open>Properties of the stream merge\<close>

lemma notbefore_trans: "\<not> before d b a \<Longrightarrow> \<not> before d c b \<Longrightarrow> \<not> before d c a"
  by (cases d) auto

lemma before_asym: "before d a b \<Longrightarrow> \<not> before d b a"
  by (cases d) auto

lemma length_merge2: "length (merge2 d xs ys) = length xs + length ys"
  by (induction d xs ys rule: merge2.induct) auto

lemma set_merge2: "set (merge2 d xs ys) = set xs \<union> set ys"
  by (induction d xs ys rule: merge2.induct) auto

lemma sortedDir_Cons:
  "sortedDir d (x # xs) \<longleftrightarrow> (\<forall>y\<in>set xs. \<not> before d y x) \<and> sortedDir d xs"
  by (simp add: sortedDir_def)

lemma sortedDir_Nil: "sortedDir d []"
  by (simp add: sortedDir_def)

lemma sortedDir_merge2:
  "sortedDir d xs \<Longrightarrow> sortedDir d ys \<Longrightarrow> sortedDir d (merge2 d xs ys)"
proof (induction d xs ys rule: merge2.induct)
  case (3 d x xs y ys)
  show ?case
  proof (cases "before d y x")
    case True
    have "\<forall>z\<in>set (x # xs) \<union> set ys. \<not> before d z y"
      using True "3.prems" before_asym [OF True] notbefore_trans [of d x y]
      by (auto simp: sortedDir_Cons)
    moreover have "sortedDir d (merge2 d (x # xs) ys)"
      using True "3.IH"(1) "3.prems" by (simp add: sortedDir_Cons)
    ultimately show ?thesis
      using True by (simp add: sortedDir_Cons set_merge2)
  next
    case False
    have "\<forall>z\<in>set xs \<union> set (y # ys). \<not> before d z x"
      using False "3.prems" notbefore_trans [of d y x]
      by (auto simp: sortedDir_Cons)
    moreover have "sortedDir d (merge2 d xs (y # ys))"
      using False "3.IH"(2) "3.prems" by (simp add: sortedDir_Cons)
    ultimately show ?thesis
      using False by (simp add: sortedDir_Cons set_merge2)
  qed
qed (simp_all add: sortedDir_Nil)

lemma sortedDir_prefix: "sortedDir d (xs @ ys) \<Longrightarrow> sortedDir d xs"
  by (simp add: sortedDir_def sorted_wrt_append)

lemma length_byDir_merge: "length (byDir_merge s) = runsLength s"
proof -
  have "length (foldr (merge2 d) ms []) = sum_list (map length ms)" for d ms
    by (induction ms) (simp_all add: length_merge2)
  then show ?thesis by (simp add: byDir_merge_def runsLength_def)
qed

lemma sortedDir_byDir_merge:
  assumes "\<forall>m\<in>set (markers s). sortedDir (direction s) m"
  shows "sortedDir (direction s) (byDir_merge s)"
proof -
  have "(\<forall>m\<in>set ms. sortedDir d m) \<Longrightarrow> sortedDir d (foldr (merge2 d) ms [])" for d ms
    by (induction ms) (simp_all add: sortedDir_merge2 sortedDir_Nil)
  with assms show ?thesis by (simp add: byDir_merge_def)
qed

lemma fst_appendMarkers:
  "set (map fst (appendMarkers d stream gs)) = insert (Labels stream) (set (map fst gs))"
proof (induction gs)
  case Nil
  show ?case by simp
next
  case (Cons g gs)
  obtain k s where g: "g = (k, s)" by (cases g)
  show ?case
  proof (cases "k = Labels stream")
    case True
    then show ?thesis using g by auto
  next
    case False
    then show ?thesis using g Cons.IH by auto
  qed
qed

lemma groupsOk_appendMarkers:
  assumes "groupsOk d gs" and "sortedDir d (Entries stream)"
  shows "groupsOk d (appendMarkers d stream gs)"
  using assms
proof (induction gs)
  case Nil
  then show ?case by (simp add: groupsOk_def)
next
  case (Cons g gs)
  obtain k s where g: "g = (k, s)" by (cases g)
  have tl: "groupsOk d gs" using Cons.prems(1) by (simp add: groupsOk_def)
  show ?case
  proof (cases "k = Labels stream")
    case True
    then show ?thesis using Cons.prems g by (auto simp: groupsOk_def)
  next
    case False
    have ih: "groupsOk d (appendMarkers d stream gs)" using Cons.IH tl Cons.prems(2) by simp
    have "k \<notin> set (map fst (appendMarkers d stream gs))"
      using False Cons.prems(1) g unfolding fst_appendMarkers by (auto simp: groupsOk_def)
    then show ?thesis
      using False ih Cons.prems(1) g by (auto simp: groupsOk_def)
  qed
qed

lemma groupsTotal_appendMarkers:
  "groupsTotal (appendMarkers d stream gs) = groupsTotal gs + length (Entries stream)"
  by (induction gs) (auto simp: groupsTotal_def runsLength_def)

lemma Count_sum: "Count resp = entryCount (Result resp)"
proof -
  have "fold (\<lambda>s result. result + length (Entries s)) ss n = n + entryCount ss" for ss n
    by (induction ss arbitrary: n) (simp_all add: entryCount_def)
  then show ?thesis by (simp add: Count_def)
qed

lemma ingest_streams:
  assumes "groupsOk d (fst st)" and "\<forall>s\<in>set ss. sortedDir d (Entries s)"
    and "groupsTotal (fst st) = snd st"
    and "st' = fold (\<lambda>stream (gs, n).
            (appendMarkers d stream gs, n + length (Entries stream))) ss st"
  shows "groupsOk d (fst st') \<and> groupsTotal (fst st') = snd st'
         \<and> snd st' = snd st + entryCount ss"
  using assms
proof (induction ss arbitrary: st)
  case Nil
  then show ?case by (simp add: entryCount_def)
next
  case (Cons s ss)
  let ?st = "(appendMarkers d s (fst st), snd st + length (Entries s))"
  have a: "groupsOk d (fst ?st)"
    using Cons.prems by (simp add: groupsOk_appendMarkers)
  have b: "groupsTotal (fst ?st) = snd ?st"
    using Cons.prems by (simp add: groupsTotal_appendMarkers)
  have c: "\<forall>s\<in>set ss. sortedDir d (Entries s)" using Cons.prems(2) by simp
  have e: "st' = fold (\<lambda>stream (gs, n).
            (appendMarkers d stream gs, n + length (Entries stream))) ss ?st"
    using Cons.prems(4) by (simp add: case_prod_unfold)
  from Cons.IH [OF a c b e] show ?case
    by (simp add: entryCount_def)
qed

lemma ingestResponse_ok:
  assumes "groupsOk d (fst st)" and "\<forall>s\<in>set (Result resp). sortedDir d (Entries s)"
    and "groupsTotal (fst st) = snd st"
  shows "groupsOk d (fst (ingestResponse d resp st))"
    and "groupsTotal (fst (ingestResponse d resp st)) = snd (ingestResponse d resp st)"
    and "snd (ingestResponse d resp st) = snd st + Count resp"
  using ingest_streams [OF assms, of "ingestResponse d resp st"]
  by (simp_all add: ingestResponse_def Count_sum)

lemma ingest_ok:
  assumes "groupsOk d (fst st)"
    and "\<forall>resp\<in>set resps. \<forall>s\<in>set (Result resp). sortedDir d (Entries s)"
    and "groupsTotal (fst st) = snd st"
  shows "groupsOk d (fst (ingest d limit resps st))
       \<and> groupsTotal (fst (ingest d limit resps st)) = snd (ingest d limit resps st)
       \<and> (snd (ingest d limit resps st) = snd st + sum_list (map Count resps)
          \<or> (limit \<le> snd (ingest d limit resps st)
             \<and> snd (ingest d limit resps st) \<le> snd st + sum_list (map Count resps)))"
  using assms
proof (induction resps arbitrary: st)
  case Nil
  then show ?case by simp
next
  case (Cons resp resps)
  let ?st = "ingestResponse d resp st"
  have s: "\<forall>s\<in>set (Result resp). sortedDir d (Entries s)" using Cons.prems(2) by simp
  note r = ingestResponse_ok [OF Cons.prems(1) s Cons.prems(3)]
  show ?case
  proof (cases "limit \<le> snd ?st")
    case True
    then show ?thesis using r by (simp add: Let_def)
  next
    case False
    have "\<forall>resp\<in>set resps. \<forall>s\<in>set (Result resp). sortedDir d (Entries s)"
      using Cons.prems(2) by simp
    from Cons.IH [OF r(1) this r(2)] False r(3) show ?thesis
      by (auto simp: Let_def)
  qed
qed

lemma mergedEntries_in:
  "groupsOk d gs \<Longrightarrow> (k, s) \<in> set gs \<Longrightarrow> mergedEntries gs k = byDir_merge s"
  by (simp add: mergedEntries_def groupsOk_def)

lemma sortedDir_mergedEntries:
  assumes "groupsOk d gs"
  shows "sortedDir d (mergedEntries gs k)"
proof (cases "map_of gs k")
  case None
  then show ?thesis by (simp add: mergedEntries_def sortedDir_Nil)
next
  case (Some s)
  then have "(k, s) \<in> set gs" by (rule map_of_SomeD)
  with assms have "direction s = d" "\<forall>m\<in>set (markers s). sortedDir (direction s) m"
    by (auto simp: groupsOk_def)
  with sortedDir_byDir_merge [of s] Some show ?thesis
    by (simp add: mergedEntries_def)
qed

lemma length_mergedEntries_sum:
  assumes "groupsOk d gs"
  shows "sum_list (map (\<lambda>k. length (mergedEntries gs k)) (map fst gs)) = groupsTotal gs"
proof -
  have "map (\<lambda>k. length (mergedEntries gs k)) (map fst gs) = map (\<lambda>(k, s). runsLength s) gs"
    unfolding map_map
    by (rule map_cong) (auto simp: mergedEntries_in [OF assms] length_byDir_merge)
  then show ?thesis by (simp only: groupsTotal_def)
qed

lemma set_sortKeys: "set (sortKeys d ks) = set ks"
  by (simp add: sortKeys_def)

lemma distinct_sortKeys: "distinct (sortKeys d ks) = distinct ks"
  by (simp add: sortKeys_def)

lemma sum_list_sortKeys:
  "distinct ks \<Longrightarrow> sum_list (map f (sortKeys d ks)) = sum_list (map (f::string \<Rightarrow> nat) ks)"
  by (simp add: sum_list_distinct_conv_sum_set distinct_sortKeys set_sortKeys)

lemma remaining_Cons:
  "remaining (s # pq) l = (if Labels s = l then Entries s @ remaining pq l else remaining pq l)"
  by (simp add: remaining_def)

lemma remaining_notin: "l \<notin> Labels ` set pq \<Longrightarrow> remaining pq l = []"
  by (induction pq) (auto simp: remaining_Cons remaining_def)

lemma entryCount_Cons: "entryCount (s # ss) = length (Entries s) + entryCount ss"
  by (simp add: entryCount_def)

lemma pqPop_None: "pqPop d pq = None \<longleftrightarrow> (\<forall>s\<in>set pq. Entries s = [])"
  by (induction pq) (auto simp: Let_def split: list.splits option.splits)

lemma pqPop_Some:
  assumes "distinct (map Labels pq)" and "pqPop d pq = Some (nxt, pq')"
  shows "(\<exists>e. Entries nxt = [e] \<and> remaining pq (Labels nxt) = e # remaining pq' (Labels nxt))
         \<and> (\<forall>l. l \<noteq> Labels nxt \<longrightarrow> remaining pq' l = remaining pq l)
         \<and> distinct (map Labels pq')
         \<and> Labels ` set pq' \<subseteq> Labels ` set pq
         \<and> Labels nxt \<in> Labels ` set pq
         \<and> entryCount pq = Suc (entryCount pq')"
  using assms
proof (induction pq arbitrary: nxt pq')
  case Nil
  then show ?case by simp
next
  case (Cons s pq)
  have dis: "distinct (map Labels pq)" and notin: "Labels s \<notin> Labels ` set pq"
    using Cons.prems(1) by auto
  have rem_s: "remaining pq (Labels s) = []" using notin by (rule remaining_notin)
  show ?case
  proof (cases "Entries s")
    case Nil
    with Cons.prems(2) obtain q' where q': "pqPop d pq = Some (nxt, q')" and pq': "pq' = s # q'"
      by (auto split: option.splits)
    note ih = Cons.IH [OF dis q']
    have ne: "Labels nxt \<noteq> Labels s" using ih notin by auto
    have "Labels s \<notin> Labels ` set q'" using ih notin by auto
    then show ?thesis
      using ih ne Nil unfolding pq' by (auto simp: remaining_Cons entryCount_Cons)
  next
    case (Cons e es)
    let ?here = "(s\<lparr>Entries := [e]\<rparr>, if es = [] then pq else s\<lparr>Entries := es\<rparr> # pq)"
    have here: "(nxt, pq') = ?here \<Longrightarrow> ?thesis"
    proof -
      assume h: "(nxt, pq') = ?here"
      then have n: "nxt = s\<lparr>Entries := [e]\<rparr>"
        and p: "pq' = (if es = [] then pq else s\<lparr>Entries := es\<rparr> # pq)" by auto
      show ?thesis
        unfolding n p using Cons dis notin rem_s
        by (auto simp: remaining_Cons entryCount_Cons)
    qed
    show ?thesis
    proof (cases "pqPop d pq")
      case None
      with Cons.prems(2) Cons have "(nxt, pq') = ?here" by (simp add: Let_def)
      then show ?thesis by (rule here)
    next
      case (Some r)
      obtain n q' where r: "r = (n, q')" by (cases r)
      note ih = Cons.IH [OF dis Some [unfolded r]]
      show ?thesis
      proof (cases "streamBefore d (Labels n, hd (Entries n)) (Labels s, e)")
        case True
        with Cons.prems(2) Cons Some r have n: "nxt = n" and p: "pq' = s # q'"
          by (simp_all add: Let_def)
        have ne: "Labels n \<noteq> Labels s" using ih notin by auto
        have "Labels s \<notin> Labels ` set q'" using ih notin by auto
        then show ?thesis
          using ih ne unfolding n p by (auto simp: remaining_Cons entryCount_Cons)
      next
        case False
        with Cons.prems(2) Cons Some r have "(nxt, pq') = ?here" by (simp add: Let_def)
        then show ?thesis by (rule here)
      qed
    qed
  qed
qed

lemma entryCount_zero: "(\<forall>s\<in>set pq. Entries s = []) \<Longrightarrow> entryCount pq = 0"
  by (induction pq) (simp_all add: entryCount_def)

lemma popLoop_prefix:
  "distinct (map Labels pq) \<Longrightarrow>
     \<exists>rest. entriesOf (popLoop d n pq res) l @ rest = entriesOf res l @ remaining pq l"
proof (induction n arbitrary: pq res)
  case 0
  then show ?case by simp
next
  case (Suc n)
  show ?case
  proof (cases "pqPop d pq")
    case None
    then show ?thesis by simp
  next
    case (Some r)
    obtain nxt pq' where r: "r = (nxt, pq')" by (cases r)
    let ?res = "res(Labels nxt \<mapsto> entriesOf res (Labels nxt) @ Entries nxt)"
    note p = pqPop_Some [OF Suc.prems Some [unfolded r]]
    from p have "distinct (map Labels pq')" by simp
    from Suc.IH [OF this, of ?res]
    obtain rest where rest:
      "entriesOf (popLoop d n pq' ?res) l @ rest = entriesOf ?res l @ remaining pq' l"
      by blast
    have "entriesOf ?res l @ remaining pq' l = entriesOf res l @ remaining pq l"
    proof (cases "l = Labels nxt")
      case True
      from p obtain e where "Entries nxt = [e]"
        "remaining pq (Labels nxt) = e # remaining pq' (Labels nxt)" by blast
      with True show ?thesis by (simp add: entriesOf_def)
    next
      case False
      with p have "remaining pq' l = remaining pq l" by simp
      with False show ?thesis by (simp add: entriesOf_def)
    qed
    with rest have "entriesOf (popLoop d n pq' ?res) l @ rest = entriesOf res l @ remaining pq l"
      by simp
    moreover have "popLoop d (Suc n) pq res = popLoop d n pq' ?res"
      using Some r by (simp add: entriesOf_def)
    ultimately show ?thesis by metis
  qed
qed

lemma sum_list_bump:
  assumes "distinct keys" and "l \<in> set keys" and "f l = Suc (g l)"
    and "\<forall>k\<in>set keys. k \<noteq> l \<longrightarrow> f k = g k"
  shows "sum_list (map f keys) = Suc (sum_list (map g keys))"
  using assms(1,2,4)
proof (induction keys)
  case Nil
  then show ?case by simp
next
  case (Cons k keys)
  show ?case
  proof (cases "k = l")
    case True
    then have "\<forall>x\<in>set keys. x \<noteq> l" using Cons.prems(1) by auto
    with Cons.prems(3) have "map f keys = map g keys" by (intro map_cong) auto
    then have "sum_list (map f keys) = sum_list (map g keys)" by (simp only:)
    with True assms(3) show ?thesis by simp
  next
    case False
    with Cons assms(3) show ?thesis by simp
  qed
qed

lemma sum_entriesOf_update:
  assumes "distinct keys" and "l \<in> set keys"
  shows "sum_list (map (\<lambda>k. length (entriesOf (res(l \<mapsto> entriesOf res l @ [e])) k)) keys)
         = Suc (sum_list (map (\<lambda>k. length (entriesOf res k)) keys))"
  using assms by (rule sum_list_bump) (simp_all add: entriesOf_def)

lemma popLoop_count:
  assumes "distinct keys" and "distinct (map Labels pq)" and "Labels ` set pq \<subseteq> set keys"
  shows "sum_list (map (\<lambda>k. length (entriesOf (popLoop d n pq res) k)) keys)
         = sum_list (map (\<lambda>k. length (entriesOf res k)) keys) + min n (entryCount pq)"
  using assms(2,3)
proof (induction n arbitrary: pq res)
  case 0
  then show ?case by simp
next
  case (Suc n)
  show ?case
  proof (cases "pqPop d pq")
    case None
    then have "entryCount pq = 0" by (simp add: pqPop_None entryCount_zero)
    with None show ?thesis by simp
  next
    case (Some r)
    obtain nxt pq' where r: "r = (nxt, pq')" by (cases r)
    note p = pqPop_Some [OF Suc.prems(1) Some [unfolded r]]
    from p obtain e where e: "Entries nxt = [e]" by blast
    let ?res = "res(Labels nxt \<mapsto> entriesOf res (Labels nxt) @ [e])"
    have step: "popLoop d (Suc n) pq res = popLoop d n pq' ?res"
      using Some r e by (simp add: entriesOf_def)
    have d': "distinct (map Labels pq')" using p by blast
    have "Labels ` set pq' \<subseteq> Labels ` set pq" using p by blast
    then have s': "Labels ` set pq' \<subseteq> set keys" using Suc.prems(2) by blast
    have "Labels nxt \<in> Labels ` set pq" using p by blast
    then have mem: "Labels nxt \<in> set keys" using Suc.prems(2) by blast
    have cnt: "entryCount pq = Suc (entryCount pq')" using p by blast
    show ?thesis
      unfolding step Suc.IH [OF d' s'] sum_entriesOf_update [OF assms(1) mem] cnt
      by simp
  qed
qed

lemma entryCount_results:
  "entryCount (List.map_filter
      (\<lambda>key. map_option (\<lambda>es. \<lparr>Labels = key, Entries = es\<rparr>) (res key)) keys)
   = sum_list (map (\<lambda>k. length (entriesOf res k)) keys)"
  by (induction keys)
    (auto simp: entryCount_def entriesOf_def split: option.splits)

lemma results_member:
  assumes "s \<in> set (List.map_filter
      (\<lambda>key. map_option (\<lambda>es. \<lparr>Labels = key, Entries = es\<rparr>) (res key)) keys)"
  shows "Labels s \<in> set keys \<and> Entries s = entriesOf res (Labels s)"
  using assms
  by (induction keys)
    (auto simp: entriesOf_def split: option.splits)

lemma results_distinct:
  "distinct keys \<Longrightarrow> distinct (map Labels (List.map_filter
      (\<lambda>key. map_option (\<lambda>es. \<lparr>Labels = key, Entries = es\<rparr>) (res key)) keys))"
proof (induction keys)
  case Nil
  show ?case by simp
next
  case (Cons k keys)
  have "k \<notin> Labels ` set (List.map_filter
      (\<lambda>key. map_option (\<lambda>es. \<lparr>Labels = key, Entries = es\<rparr>) (res key)) keys)"
    using Cons.prems results_member [of _ res keys] by auto
  with Cons show ?case
    by (auto split: option.splits)
qed

lemma sortedDir_remaining:
  "distinct (map Labels pq) \<Longrightarrow> \<forall>s\<in>set pq. sortedDir d (Entries s)
     \<Longrightarrow> sortedDir d (remaining pq l)"
proof (induction pq)
  case Nil
  show ?case by (simp add: remaining_def sortedDir_Nil)
next
  case (Cons s pq)
  show ?case
  proof (cases "Labels s = l")
    case True
    with Cons.prems(1) have "l \<notin> Labels ` set pq" by auto
    then have "remaining pq l = []" by (rule remaining_notin)
    with True Cons.prems(2) show ?thesis by (simp add: remaining_Cons)
  next
    case False
    with Cons show ?thesis by (simp add: remaining_Cons)
  qed
qed

lemma entryCount_filter:
  "entryCount (filter (\<lambda>stream. length (Entries stream) > 0) ss) = entryCount ss"
  by (induction ss) (simp_all add: entryCount_def)

lemma entryCount_merged:
  "entryCount (map (\<lambda>key. \<lparr>Labels = key, Entries = mergedEntries gs key\<rparr>) keys)
   = sum_list (map (\<lambda>k. length (mergedEntries gs k)) keys)"
  by (simp add: entryCount_def comp_def)

lemma groupsOk_Nil: "groupsOk d []"
  by (simp add: groupsOk_def)

text \<open>
  C1: for responses whose streams are each sorted in the direction and pairwise
  non-overlapping per label, the merged streams hold as many entries as the smaller of the
  limit and the number of entries of all the responses; the entries of every merged stream
  are sorted in the direction, and no two merged streams have the same labels.
\<close>

theorem mergeOrderedNonOverlappingStreams_limit_sorted:
  assumes "\<forall>resp\<in>set resps. \<forall>s\<in>set (Result resp). sortedDir d (Entries s)"
    and "nonOverlapping d (concat (map Result resps))"
  shows "entryCount (mergeOrderedNonOverlappingStreams resps limit d)
           = min (unat limit) (sum_list (map Count resps))
         \<and> (\<forall>s\<in>set (mergeOrderedNonOverlappingStreams resps limit d).
               sortedDir d (Entries s))
         \<and> distinct (map Labels (mergeOrderedNonOverlappingStreams resps limit d))"
proof -
  obtain gs n where ing: "ingest d (unat limit) resps ([], 0) = (gs, n)"
    by (cases "ingest d (unat limit) resps ([], 0)")
  have ok: "groupsOk d gs" and tot: "groupsTotal gs = n"
    and bound: "n = sum_list (map Count resps)
                \<or> (unat limit \<le> n \<and> n \<le> sum_list (map Count resps))"
    using ingest_ok [of d "([], 0)" resps "unat limit"] assms(1) ing
    by (simp_all add: groupsOk_Nil groupsTotal_def)
  let ?keys = "sortKeys d (map fst gs)"
  let ?mk = "\<lambda>key. \<lparr>Labels = key, Entries = mergedEntries gs key\<rparr>"
  have dk: "distinct ?keys"
    using ok by (simp add: distinct_sortKeys groupsOk_def)
  have all: "sum_list (map (\<lambda>k. length (mergedEntries gs k)) ?keys) = n"
    using ok tot length_mergedEntries_sum [OF ok]
    by (simp add: sum_list_sortKeys groupsOk_def)
  show ?thesis
  proof (cases "n \<le> unat limit")
    case True
    have out: "mergeOrderedNonOverlappingStreams resps limit d = map ?mk ?keys"
      using ing True by (simp add: mergeOrderedNonOverlappingStreams_def)
    have "entryCount (map ?mk ?keys) = n"
      using all by (simp add: entryCount_merged)
    moreover have "min (unat limit) (sum_list (map Count resps)) = n"
      using True bound by auto
    moreover have "\<forall>s\<in>set (map ?mk ?keys). sortedDir d (Entries s)"
      using sortedDir_mergedEntries [OF ok] by auto
    moreover have "map Labels (map ?mk ?keys) = ?keys"
      by (simp add: comp_def)
    ultimately show ?thesis
      unfolding out using dk by simp
  next
    case False
    let ?pq = "filter (\<lambda>stream. length (Entries stream) > 0) (map ?mk ?keys)"
    let ?res = "popLoop d (unat limit) ?pq Map.empty"
    let ?out = "List.map_filter
        (\<lambda>key. map_option (\<lambda>es. \<lparr>Labels = key, Entries = es\<rparr>) (?res key)) ?keys"
    have out: "mergeOrderedNonOverlappingStreams resps limit d = ?out"
      using ing False by (simp add: mergeOrderedNonOverlappingStreams_def Let_def)
    have lk: "map Labels (map ?mk ?keys) = ?keys"
      by (simp add: comp_def)
    have dpq: "distinct (map Labels ?pq)"
      using dk lk distinct_map_filter [of Labels "map ?mk ?keys"] by simp
    have sub: "Labels ` set ?pq \<subseteq> set ?keys"
      by auto
    have cpq: "entryCount ?pq = n"
      using all by (simp only: entryCount_filter entryCount_merged)
    have "entryCount ?out = sum_list (map (\<lambda>k. length (entriesOf ?res k)) ?keys)"
      by (rule entryCount_results)
    also have "\<dots> = sum_list (map (\<lambda>k. length (entriesOf Map.empty k)) ?keys)
                     + min (unat limit) (entryCount ?pq)"
      by (rule popLoop_count [OF dk dpq sub])
    also have "\<dots> = min (unat limit) n"
      unfolding cpq by (simp add: entriesOf_def)
    also have "\<dots> = min (unat limit) (sum_list (map Count resps))"
      using False bound by auto
    finally have c1: "entryCount ?out = min (unat limit) (sum_list (map Count resps))" .
    have spq: "\<forall>s\<in>set ?pq. sortedDir d (Entries s)"
      using sortedDir_mergedEntries [OF ok] by auto
    have c2: "\<forall>s\<in>set ?out. sortedDir d (Entries s)"
    proof
      fix s
      assume "s \<in> set ?out"
      then have e: "Entries s = entriesOf ?res (Labels s)"
        using results_member [of s ?res ?keys] by simp
      obtain rest where
        "entriesOf ?res (Labels s) @ rest
           = entriesOf Map.empty (Labels s) @ remaining ?pq (Labels s)"
        using popLoop_prefix [OF dpq, of d "unat limit" Map.empty "Labels s"] by blast
      then have "entriesOf ?res (Labels s) @ rest = remaining ?pq (Labels s)"
        by (simp add: entriesOf_def)
      moreover have "sortedDir d (remaining ?pq (Labels s))"
        using dpq spq by (rule sortedDir_remaining)
      ultimately have "sortedDir d (entriesOf ?res (Labels s))"
        using sortedDir_prefix [of d "entriesOf ?res (Labels s)" rest] by simp
      with e show "sortedDir d (Entries s)" by simp
    qed
    have c3: "distinct (map Labels ?out)"
      using dk by (rule results_distinct)
    show ?thesis
      unfolding out using c1 c2 c3 by blast
  qed
qed

theorem mergeOrderedNonOverlappingStreams_limit_sorted_witness:
  "sortedDir BACKWARD [example_entry 10 ''a'', example_entry 9 ''b'']
   \<and> sortedDir BACKWARD [example_entry 8 ''c'', example_entry 7 ''d'']
   \<and> nonOverlapping BACKWARD (concat (map Result [scenario_A, scenario_B]))
   \<and> mergeOrderedNonOverlappingStreams [scenario_A, scenario_B] 3 BACKWARD
       = [\<lparr>Labels = ''{foo=1}'',
           Entries = [example_entry 10 ''a'', example_entry 9 ''b'', example_entry 8 ''c'']\<rparr>]
   \<and> entryCount (mergeOrderedNonOverlappingStreams [scenario_A, scenario_B] 3 BACKWARD)
       = min (unat (3 :: 32 word)) (sum_list (map Count [scenario_A, scenario_B]))
   \<and> sortedDir BACKWARD
        [example_entry 10 ''a'', example_entry 9 ''b'', example_entry 8 ''c'']"
proof -
  have s: "\<forall>resp\<in>set [scenario_A, scenario_B]. \<forall>s\<in>set (Result resp).
             sortedDir BACKWARD (Entries s)"
    by (simp add: scenario_A_def scenario_B_def example_LokiResponse_def sortedDir_def
        example_entry_def)
  have n: "nonOverlapping BACKWARD (concat (map Result [scenario_A, scenario_B]))"
    by (simp add: scenario_A_def scenario_B_def example_LokiResponse_def apart_def
        example_entry_def)
  have m: "mergeOrderedNonOverlappingStreams [scenario_A, scenario_B] 3 BACKWARD
       = [\<lparr>Labels = ''{foo=1}'',
           Entries = [example_entry 10 ''a'', example_entry 9 ''b'', example_entry 8 ''c'']\<rparr>]"
    by code_simp
  note t = mergeOrderedNonOverlappingStreams_limit_sorted [OF s n, of 3]
  from t [THEN conjunct1] have c: "entryCount (mergeOrderedNonOverlappingStreams [scenario_A, scenario_B] 3 BACKWARD)
       = min (unat (3 :: 32 word)) (sum_list (map Count [scenario_A, scenario_B]))" .
  from t [THEN conjunct2, THEN conjunct1] have "\<forall>s\<in>set (mergeOrderedNonOverlappingStreams [scenario_A, scenario_B] 3 BACKWARD).
      sortedDir BACKWARD (Entries s)" .
  then have o: "sortedDir BACKWARD
        [example_entry 10 ''a'', example_entry 9 ''b'', example_entry 8 ''c'']"
    unfolding m by simp
  have i: "sortedDir BACKWARD [example_entry 10 ''a'', example_entry 9 ''b'']"
    "sortedDir BACKWARD [example_entry 8 ''c'', example_entry 7 ''d'']"
    by (simp_all add: sortedDir_def example_entry_def)
  show ?thesis
    by (intro conjI) (rule i n m c o)+
qed

section \<open>Properties of the request codec\<close>

lemma digitVal_digit: "d < 10 \<Longrightarrow> digitVal (digit d) = Some d"
proof -
  assume "d < 10"
  then consider "d = 0" | "d = 1" | "d = 2" | "d = 3" | "d = 4" | "d = 5" | "d = 6"
    | "d = 7" | "d = 8" | "d = 9" by atomize_elim arith
  then show ?thesis
    by cases (simp_all add: digitVal_def digit_def)
qed

lemma digit_not_minus: "d < 10 \<Longrightarrow> digit d \<noteq> CHR ''-''"
proof -
  assume "d < 10"
  then consider "d = 0" | "d = 1" | "d = 2" | "d = 3" | "d = 4" | "d = 5" | "d = 6"
    | "d = 7" | "d = 8" | "d = 9" by atomize_elim arith
  then show ?thesis
    by cases (simp_all add: digit_def)
qed

lemma addDigit_digit: "d < 10 \<Longrightarrow> addDigit (Some a) (digit d) = Some (10 * a + d)"
  by (simp add: addDigit_def digitVal_digit)

lemma decimal_nonempty: "decimal n \<noteq> []"
  by (subst decimal.simps) simp

lemma foldl_decimal: "foldl addDigit (Some 0) (decimal n) = Some n"
proof (induction n rule: decimal.induct)
  case (1 n)
  show ?case
  proof (cases "n < 10")
    case True
    then show ?thesis by (simp add: decimal_small addDigit_digit)
  next
    case False
    with 1 have "foldl addDigit (Some 0) (decimal (n div 10)) = Some (n div 10)" by simp
    with False show ?thesis
      by (simp add: decimal_large addDigit_digit)
  qed
qed

lemma parseNat_decimal: "parseNat (decimal n) = Some n"
  using foldl_decimal [of n]
  by (simp add: parseNat_def decimal_nonempty)

lemma hd_decimal: "\<exists>d cs. d < 10 \<and> decimal n = digit d # cs"
proof (induction n rule: decimal.induct)
  case (1 n)
  show ?case
  proof (cases "n < 10")
    case True
    then show ?thesis by (auto simp: decimal_small)
  next
    case False
    with 1 obtain d cs where "d < 10" "decimal (n div 10) = digit d # cs" by blast
    with False show ?thesis by (auto simp: decimal_large)
  qed
qed

lemma parseInt_fmt_d: "parseInt (fmt_d i) = Some i"
proof (cases "i < 0")
  case True
  then show ?thesis by (simp add: parseInt_def fmt_d_def parseNat_decimal)
next
  case False
  obtain d cs where d: "d < 10" "decimal (nat i) = digit d # cs"
    using hd_decimal by blast
  have "parseInt (decimal (nat i)) = map_option int (parseNat (decimal (nat i)))"
    unfolding parseInt_def d(2) using digit_not_minus [OF d(1)] by simp
  with False show ?thesis by (simp add: fmt_d_def parseNat_decimal)
qed

lemma parseTimestamp_fmt_d: "parseTimestamp (fmt_d t) = Inr t"
  by (simp add: parseTimestamp_def parseInt_fmt_d)

lemma parseLimit_fmt_d: "parseLimit (fmt_d (uint (w :: 32 word))) = Inr w"
proof -
  have "fmt_d (uint w) = decimal (unat w)"
    by (simp add: fmt_d_def)
  moreover have "unat w < 2 ^ 32" using unsigned_less [of w] by simp
  ultimately show ?thesis
    by (simp add: parseLimit_def parseNat_decimal)
qed

lemma parseDirection_String: "parseDirection (Direction_String d) = Inr d"
  by (cases d) (simp_all add: parseDirection_def)

lemma getOperation_canonical:
  "getOperation ''/loki/api/v1/query_range'' = QueryRangeOp"
  "getOperation ''/loki/api/v1/query'' = InstantQueryOp"
  "getOperation ''/loki/api/v1/series'' = SeriesOp"
  "getOperation ''/loki/api/v1/labels'' = LabelNamesOp"
  by (simp_all add: getOperation_def hasSuffix_def)

lemma andThen_Inr: "andThen (Inr x) f = f x"
  by (simp add: andThen_def)

lemma roundTrip_RangeQuery:
  assumes "ParseStep ext (stepParam ext (RangeQuery q)) = Inr stepNanos"
  shows "roundTrip ext queryTags (RangeQuery q)
           = Inr (RangeQuery (q\<lparr>Path := ''/loki/api/v1/query_range'',
                                Step := stepNanos sdiv 1000000\<rparr>))"
proof -
  have st: "Step q \<noteq> 0 \<Longrightarrow> ParseStep ext [FormatStep ext (Step q)] = Inr stepNanos"
    "Step q = 0 \<Longrightarrow> ParseStep ext [] = Inr stepNanos"
    using assms by (auto simp: stepParam_def split: if_splits)
  show ?thesis
    by (cases "Step q = 0"; cases "Shards q = []")
      (simp_all add: roundTrip_def Let_def DecodeRequest_def getOperation_canonical
        ParseRangeQuery_def Form_Get_def Values_def parseTimestamp_fmt_d parseLimit_fmt_d
        parseDirection_String andThen_Inr st)
qed

text \<open>
  C3, as the code has it: decoding what \<open>EncodeRequest\<close> wrote gives the request back
  with its query, times, limit, direction, shards and matchers, and with the path that
  the encoder writes for its type in place of the request's own path. The step of a range
  query goes through the two floating-point conversions, which are taken as they come: the
  decoded step is what the step parser reads, and the parser must accept what the encoder
  wrote.
\<close>

theorem roundTrip_canonical:
  assumes "(\<exists>q. r = RangeQuery q) \<longrightarrow> ParseStep ext (stepParam ext r) = Inr stepNanos"
  shows "roundTrip ext queryTags r
           = Inr (withStep (withPath r (canonicalPath r)) (stepNanos sdiv 1000000))"
proof (cases r)
  case (RangeQuery q)
  with assms have "ParseStep ext (stepParam ext (RangeQuery q)) = Inr stepNanos" by simp
  then show ?thesis
    unfolding RangeQuery by (simp add: roundTrip_RangeQuery)
next
  case (InstantQuery q)
  show ?thesis
    unfolding InstantQuery
    by (simp add: roundTrip_def Let_def DecodeRequest_def getOperation_canonical
        ParseInstantQuery_def Form_Get_def Values_def parseTimestamp_fmt_d parseLimit_fmt_d
        parseDirection_String andThen_Inr split: list.splits)
next
  case (SeriesQuery q)
  show ?thesis
    unfolding SeriesQuery
    by (simp add: roundTrip_def Let_def DecodeRequest_def getOperation_canonical
        ParseAndValidateSeriesQuery_def Form_Get_def Values_def parseTimestamp_fmt_d
        andThen_Inr split: list.splits)
next
  case (LabelNamesQuery q)
  show ?thesis
    unfolding LabelNamesQuery
    by (simp add: roundTrip_def Let_def DecodeRequest_def getOperation_canonical
        ParseLabelQuery_def Form_Get_def Values_def parseTimestamp_fmt_d andThen_Inr)
qed

lemma example_step:
  "ParseStep example_externals (stepParam example_externals scenario_request) = Inr 15000000000"
  "ParseStep example_externals (stepParam example_externals legacy_request) = Inr 15000000000"
  by (simp_all add: stepParam_def scenario_request_def legacy_request_def example_externals_def
      fmt_d_def decimal_small decimal_large digit_def
      parseInt_def parseNat_def addDigit_def digitVal_def)

theorem roundTrip_canonical_witness:
  "ParseStep example_externals (stepParam example_externals scenario_request) = Inr 15000000000
   \<and> roundTrip example_externals [] scenario_request = Inr scenario_request"
proof -
  have "(\<exists>q. scenario_request = RangeQuery q) \<longrightarrow>
      ParseStep example_externals (stepParam example_externals scenario_request)
        = Inr 15000000000"
    by (simp add: example_step)
  from roundTrip_canonical [OF this, of "[]"]
  have "roundTrip example_externals [] scenario_request = Inr scenario_request"
    by (simp add: scenario_request_def signed_divide_int_def)
  then show ?thesis by (simp add: example_step)
qed

text \<open>
  C3 as stated fails on the path: a range query that came in on the legacy path
  \<^verbatim>\<open>/api/prom/query_range\<close> is decoded, after encoding, with the path
  \<^verbatim>\<open>/loki/api/v1/query_range\<close>.
\<close>

theorem roundTrip_path_counterexample:
  "roundTrip example_externals [] legacy_request
     = Inr (withPath legacy_request ''/loki/api/v1/query_range'')
   \<and> GetPath legacy_request = ''/api/prom/query_range''
   \<and> roundTrip example_externals [] legacy_request \<noteq> Inr legacy_request"
proof -
  have "roundTrip example_externals [] legacy_request
     = Inr (withPath legacy_request ''/loki/api/v1/query_range'')"
    using roundTrip_RangeQuery [OF example_step(2) [unfolded legacy_request_def], of "[]"]
    by (simp add: legacy_request_def signed_divide_int_def)
  then show ?thesis
    by (simp add: legacy_request_def)
qed

end
